theory Spec2Isabelle
  imports Main "HOL-Library.Word" "HOL-Library.AList"
begin

unbundle bit_operations_syntax

chapter \<open>Railgun: a shallow embedding of the core\<close>

section \<open>JavaScript data\<close>

text \<open>
  Bytes are the elements of a \<open>Uint8Array\<close>; a JavaScript string is a sequence of UTF-16
  code units, so a character outside the Basic Multilingual Plane is two units (a
  surrogate pair) and \<open>s.length\<close>, \<open>s[i]\<close> and \<open>charCodeAt\<close> count units while
  \<open>for (const c of s)\<close> walks code points.
\<close>

type_synonym byte = "8 word"
type_synonym bytes = "byte list"
type_synonym jschar = "16 word"
type_synonym jsstring = "jschar list"

definition ascii :: "string \<Rightarrow> jsstring" where
  "ascii s = map (\<lambda>c. word_of_nat (of_char c)) s"

text \<open>
  A JavaScript number is a double. An integer-valued one (\<open>Number.isInteger\<close>) is
  \<open>JInt\<close>; any other double is \<open>JDbl\<close> of its IEEE-754 bits. The sign of zero is not
  modelled.
\<close>

datatype jsnum = JInt int | JDbl "64 word"

datatype jsval =
    VNull
  | VUndefined
  | VBool bool
  | VNum jsnum
  | VStr jsstring
  | VBin bytes
  | VArr "jsval list"
  | VObj "(jsstring \<times> jsval) list"

text \<open>Everything the modelled code throws.\<close>

datatype jserror =
    InvalidHexString
  | UnknownMessagePackType byte
  | TypeError
  | RangeError
  | InvalidBinaryNode
  | MustBeLoggedIn
  | FrozenImmutable
  | UnknownSpace
  | LoginRequired
  | LockedWallet
  | CryptoFailure
  | SyntaxError
  | OutsideModel

subsection \<open>32-bit integer operators\<close>

text \<open>
  \<open>a >> k\<close>, \<open>a << k\<close>, \<open>a & b\<close> and \<open>a | b\<close> convert their operands with ToInt32 and
  return a signed 32-bit result; \<open>a >>> 0\<close> returns the unsigned reading. Assigning a
  number to a \<open>Uint8Array\<close> element keeps it modulo 256.
\<close>

definition toInt32 :: "int \<Rightarrow> 32 word" where
  "toInt32 a = word_of_int a"

definition sar :: "int \<Rightarrow> nat \<Rightarrow> int" where
  "sar a k = sint (signed_drop_bit k (toInt32 a))"

definition shl :: "int \<Rightarrow> nat \<Rightarrow> int" where
  "shl a k = sint (push_bit k (toInt32 a))"

definition band :: "int \<Rightarrow> int \<Rightarrow> int" where
  "band a b = sint (toInt32 a AND toInt32 b)"

definition bor :: "int \<Rightarrow> int \<Rightarrow> int" where
  "bor a b = sint (toInt32 a OR toInt32 b)"

definition ushr0 :: "int \<Rightarrow> int" where
  "ushr0 a = uint (toInt32 a)"

definition toUint8 :: "int \<Rightarrow> byte" where
  "toUint8 a = word_of_int a"

text \<open>
  \<open>buffer[i]\<close> in an arithmetic position: the byte's value, and 0 where the index is out
  of range (\<open>undefined\<close> becomes 0 under ToInt32).
\<close>

definition byteAt :: "bytes \<Rightarrow> nat \<Rightarrow> int" where
  "byteAt b i = (if i < length b then uint (b ! i) else 0)"

section \<open>The platform and the libraries\<close>

text \<open>
  What the repository calls but does not contain: SHA-256 and Ed25519 (the noble
  libraries), base-64, UTF-8, Unicode normalisation, IEEE-754 conversion and JSON (the
  JavaScript runtime), AES-GCM (WebCrypto), and the stable JSON serialisation
  (fast-json-stable-stringify). Each is a field of the environment every modelled function
  takes; theorems state what they need of it.
\<close>

record env =
  sha256 :: "bytes \<Rightarrow> bytes"
  base64 :: "bytes \<Rightarrow> jsstring"
  base64_decode :: "jsstring \<Rightarrow> bytes"
  utf8_encode :: "jsstring \<Rightarrow> bytes"
  utf8_decode :: "bytes \<Rightarrow> jsstring"
  nfkc_lower :: "jsstring \<Rightarrow> jsstring"
  float64_bytes :: "jsnum \<Rightarrow> bytes"
  float64_read :: "bytes \<Rightarrow> jsnum"
  to_property_key :: "jsval \<Rightarrow> jsstring"
  stringify :: "jsval \<Rightarrow> jsstring"
  ed_verify :: "jsstring \<Rightarrow> jsstring \<Rightarrow> jsstring \<Rightarrow> bool option"
  ed_sign :: "jsstring \<Rightarrow> jsstring \<Rightarrow> jsstring option"
  json_stringify :: "jsval \<Rightarrow> jsstring option"
  json_parse :: "jsstring \<Rightarrow> jsval option"
  aes_encrypt :: "jsstring \<Rightarrow> jsstring \<Rightarrow> bytes \<Rightarrow> jsstring option"
  aes_decrypt :: "jsstring \<Rightarrow> jsstring \<Rightarrow> jsstring option"
  coerce_ge :: "jsval \<Rightarrow> int \<Rightarrow> bool"

section \<open>The byte codec (msgpack.js)\<close>

definition be16 :: "int \<Rightarrow> bytes" where
  "be16 len = [toUint8 (sar len 8), toUint8 (band len 0xff)]"

definition be32 :: "int \<Rightarrow> bytes" where
  "be32 len = [toUint8 (band (sar len 24) 0xff), toUint8 (band (sar len 16) 0xff),
               toUint8 (band (sar len 8) 0xff), toUint8 (band len 0xff)]"

definition encodeFloat64 :: "env \<Rightarrow> jsnum \<Rightarrow> bytes" where
  "encodeFloat64 E val = 0xcb # float64_bytes E val"

definition encodeInt :: "env \<Rightarrow> int \<Rightarrow> bytes" where
  "encodeInt E val =
    (if val \<ge> 0 then
       (if val < 128 then [toUint8 val]
        else if val < 256 then [0xcc, toUint8 val]
        else if val < 65536 then [0xcd, toUint8 (sar val 8), toUint8 (band val 0xff)]
        else if val < 4294967296 then 0xce # be32 val
        else encodeFloat64 E (JInt val))
     else
       (if val \<ge> -32 then [toUint8 (band val 0xff)]
        else if val \<ge> -128 then [0xd0, toUint8 (band val 0xff)]
        else if val \<ge> -32768 then [0xd1, toUint8 (band (sar val 8) 0xff), toUint8 (band val 0xff)]
        else 0xd2 # be32 val))"

definition strHeader :: "int \<Rightarrow> bytes" where
  "strHeader len =
    (if len < 32 then [toUint8 (bor 0xa0 len)]
     else if len < 256 then [0xd9, toUint8 len]
     else if len < 65536 then 0xda # be16 len
     else 0xdb # be32 len)"

definition arrHeader :: "int \<Rightarrow> bytes" where
  "arrHeader len =
    (if len < 16 then [toUint8 (bor 0x90 len)]
     else if len < 65536 then 0xdc # be16 len
     else 0xdd # be32 len)"

definition binHeader :: "int \<Rightarrow> bytes" where
  "binHeader len =
    (if len < 256 then [0xc4, toUint8 len]
     else if len < 65536 then 0xc5 # be16 len
     else 0xc6 # be32 len)"

definition mapHeader :: "int \<Rightarrow> bytes" where
  "mapHeader len =
    (if len < 16 then [toUint8 (bor 0x80 len)]
     else if len < 65536 then 0xde # be16 len
     else 0xdf # be32 len)"

definition encodeStr :: "env \<Rightarrow> jsstring \<Rightarrow> bytes" where
  "encodeStr E s = (let utf8 = utf8_encode E s in strHeader (int (length utf8)) @ utf8)"

fun encodeValue :: "env \<Rightarrow> jsval \<Rightarrow> bytes" where
  "encodeValue E VNull = [0xc0]"
| "encodeValue E VUndefined = [0xc0]"
| "encodeValue E (VBool b) = (if b then [0xc3] else [0xc2])"
| "encodeValue E (VNum (JInt val)) = encodeInt E val"
| "encodeValue E (VNum (JDbl w)) = encodeFloat64 E (JDbl w)"
| "encodeValue E (VStr s) = encodeStr E s"
| "encodeValue E (VArr xs) =
     arrHeader (int (length xs)) @ concat (map (encodeValue E) xs)"
| "encodeValue E (VBin b) = binHeader (int (length b)) @ b"
| "encodeValue E (VObj kvs) =
     mapHeader (int (length kvs)) @
     concat (map (\<lambda>kv. encodeStr E (fst kv) @ encodeValue E (snd kv)) kvs)"

definition encode :: "env \<Rightarrow> jsval \<Rightarrow> bytes" where
  "encode E v = encodeValue E v"

text \<open>
  The decoder reads from an offset that only grows; the model passes the bytes not yet
  read. A read past the end is \<open>undefined\<close>: 0 under a shift or inside a length, the
  result itself for \<open>0xcc\<close>, a \<open>TypeError\<close> as a type byte (the default branch calls
  \<open>byte.toString\<close>).
\<close>

definition rd16 :: "bytes \<Rightarrow> int" where
  "rd16 b = bor (shl (byteAt b 0) 8) (byteAt b 1)"

definition rd32s :: "bytes \<Rightarrow> int" where
  "rd32s b = bor (bor (bor (shl (byteAt b 0) 24) (shl (byteAt b 1) 16)) (shl (byteAt b 2) 8))
                 (byteAt b 3)"

definition rd32 :: "bytes \<Rightarrow> int" where
  "rd32 b = ushr0 (rd32s b)"

definition decodeString :: "env \<Rightarrow> nat \<Rightarrow> bytes \<Rightarrow> jsval" where
  "decodeString E len b = VStr (utf8_decode E (take len b))"

definition decodeBinary :: "nat \<Rightarrow> bytes \<Rightarrow> jsval" where
  "decodeBinary len b = VBin (take len b)"

text \<open>
  \<open>obj[key] = val\<close> on a plain object: the key is converted to a string, an existing
  property keeps its place, and \<open>__proto__\<close> sets the prototype instead of a property.
  A new property goes to the end, unless its key is an array index (a canonical decimal
  below \<open>2^32 - 1\<close>): those are listed first, in ascending order.
\<close>

definition propertyKey :: "env \<Rightarrow> jsval \<Rightarrow> jsstring" where
  "propertyKey E k = (case k of VStr s \<Rightarrow> s | _ \<Rightarrow> to_property_key E k)"

definition arrayIndex :: "jsstring \<Rightarrow> nat option" where
  "arrayIndex s =
    (if s = [] \<or> \<not> list_all (\<lambda>c. 0x30 \<le> c \<and> c \<le> 0x39) s \<or> (hd s = 0x30 \<and> length s > 1) then None
     else let n = foldl (\<lambda>a c. 10 * a + unat (c - 0x30)) 0 s
          in if n < 4294967295 then Some n else None)"

fun insertIndexed :: "nat \<Rightarrow> jsstring \<Rightarrow> jsval \<Rightarrow> (jsstring \<times> jsval) list \<Rightarrow> (jsstring \<times> jsval) list" where
  "insertIndexed n k v [] = [(k, v)]"
| "insertIndexed n k v (kv # r) =
    (case arrayIndex (fst kv) of
       Some m \<Rightarrow> if m < n then kv # insertIndexed n k v r else (k, v) # kv # r
     | None \<Rightarrow> (k, v) # kv # r)"

definition objSet :: "(jsstring \<times> jsval) list \<Rightarrow> jsstring \<Rightarrow> jsval \<Rightarrow> (jsstring \<times> jsval) list" where
  "objSet obj k v =
    (if k = ascii ''__proto__'' then obj
     else if k \<in> fst ` set obj then AList.update k v obj
     else (case arrayIndex k of
             Some n \<Rightarrow> insertIndexed n k v obj
           | None \<Rightarrow> obj @ [(k, v)]))"

text \<open>
  One step of \<open>decodeValue\<close>: the type byte decides between a scalar (its value and the
  number of bytes read after the type byte), an array and a map (the element count and the
  number of bytes its length field took).
\<close>

datatype tagKind = KArr nat nat | KMap nat nat | KLeaf jsval nat | KThrow jserror

definition decodeTag :: "env \<Rightarrow> byte \<Rightarrow> bytes \<Rightarrow> tagKind" where
  "decodeTag E byte b =
    (if byte < 0x80 then KLeaf (VNum (JInt (uint byte))) 0
     else if byte AND 0xf0 = 0x80 then KMap (unat (byte AND 0x0f)) 0
     else if byte AND 0xf0 = 0x90 then KArr (unat (byte AND 0x0f)) 0
     else if byte AND 0xe0 = 0xa0 then
       (let len = unat (byte AND 0x1f) in KLeaf (decodeString E len b) len)
     else if byte \<ge> 0xe0 then KLeaf (VNum (JInt (uint byte - 256))) 0
     else if byte = 0xc0 then KLeaf VNull 0
     else if byte = 0xc2 then KLeaf (VBool False) 0
     else if byte = 0xc3 then KLeaf (VBool True) 0
     else if byte = 0xcc then
       (if b = [] then KLeaf VUndefined 1 else KLeaf (VNum (JInt (byteAt b 0))) 1)
     else if byte = 0xcd then KLeaf (VNum (JInt (rd16 b))) 2
     else if byte = 0xce then KLeaf (VNum (JInt (rd32 b))) 4
     else if byte = 0xd0 then KLeaf (VNum (JInt (sar (shl (byteAt b 0) 24) 24))) 1
     else if byte = 0xd1 then KLeaf (VNum (JInt (rd16 b))) 2
     else if byte = 0xd2 then KLeaf (VNum (JInt (rd32s b))) 4
     else if byte = 0xcb then
       (if length b < 8 then KThrow RangeError
        else KLeaf (VNum (float64_read E (take 8 b))) 8)
     else if byte = 0xd9 then
       (let len = nat (byteAt b 0) in KLeaf (decodeString E len (drop 1 b)) (1 + len))
     else if byte = 0xda then
       (let len = nat (rd16 b) in KLeaf (decodeString E len (drop 2 b)) (2 + len))
     else if byte = 0xdb then
       (let len = nat (rd32 b) in KLeaf (decodeString E len (drop 4 b)) (4 + len))
     else if byte = 0xc4 then
       (let len = nat (byteAt b 0) in KLeaf (decodeBinary len (drop 1 b)) (1 + len))
     else if byte = 0xc5 then
       (let len = nat (rd16 b) in KLeaf (decodeBinary len (drop 2 b)) (2 + len))
     else if byte = 0xc6 then
       (let len = nat (rd32 b) in KLeaf (decodeBinary len (drop 4 b)) (4 + len))
     else if byte = 0xdc then KArr (nat (rd16 b)) 2
     else if byte = 0xdd then KArr (nat (rd32 b)) 4
     else if byte = 0xde then KMap (nat (rd16 b)) 2
     else if byte = 0xdf then KMap (nat (rd32 b)) 4
     else KThrow (UnknownMessagePackType byte))"

text \<open>
  \<open>decodeValue\<close>, \<open>decodeArray\<close> and \<open>decodeMap\<close> return the value and how far the
  offset moved; each is given the bytes from the current offset on.
\<close>

function decodeValue :: "env \<Rightarrow> bytes \<Rightarrow> jserror + jsval \<times> nat"
  and decodeArray :: "env \<Rightarrow> nat \<Rightarrow> bytes \<Rightarrow> jserror + jsval list \<times> nat"
  and decodeMap :: "env \<Rightarrow> nat \<Rightarrow> bytes \<Rightarrow> (jsstring \<times> jsval) list
                     \<Rightarrow> jserror + (jsstring \<times> jsval) list \<times> nat"
where
  "decodeValue E [] = Inl TypeError"
| "decodeValue E (byte # b) =
    (case decodeTag E byte b of
       KThrow e \<Rightarrow> Inl e
     | KLeaf v k \<Rightarrow> Inr (v, Suc k)
     | KArr len h \<Rightarrow>
         (case decodeArray E len (drop h b) of
            Inl e \<Rightarrow> Inl e
          | Inr (arr, k) \<Rightarrow> Inr (VArr arr, Suc (h + k)))
     | KMap len h \<Rightarrow>
         (case decodeMap E len (drop h b) [] of
            Inl e \<Rightarrow> Inl e
          | Inr (obj, k) \<Rightarrow> Inr (VObj obj, Suc (h + k))))"
| "decodeArray E 0 b = Inr ([], 0)"
| "decodeArray E (Suc n) b =
    (case decodeValue E b of
       Inl e \<Rightarrow> Inl e
     | Inr (v, k) \<Rightarrow>
         (case decodeArray E n (drop k b) of
            Inl e \<Rightarrow> Inl e
          | Inr (arr, k') \<Rightarrow> Inr (v # arr, k + k')))"
| "decodeMap E 0 b obj = Inr (obj, 0)"
| "decodeMap E (Suc n) b obj =
    (case decodeValue E b of
       Inl e \<Rightarrow> Inl e
     | Inr (key, k1) \<Rightarrow>
         (case decodeValue E (drop k1 b) of
            Inl e \<Rightarrow> Inl e
          | Inr (val, k2) \<Rightarrow>
              (case decodeMap E n (drop (k1 + k2) b) (objSet obj (propertyKey E key) val) of
                 Inl e \<Rightarrow> Inl e
               | Inr (obj', k3) \<Rightarrow> Inr (obj', k1 + k2 + k3))))"
  by pat_completeness auto
termination
  by (relation "inv_image (less_than <*lex*> less_than)
        (\<lambda>x. case x of
           Inl (E, b) \<Rightarrow> (length b, 0)
         | Inr (Inl (E, n, b)) \<Rightarrow> (length b, Suc n)
         | Inr (Inr (E, n, b, obj)) \<Rightarrow> (length b, Suc (2 * n)))") auto

definition decode :: "env \<Rightarrow> bytes \<Rightarrow> jserror + jsval" where
  "decode E buffer = (case decodeValue E buffer of Inl e \<Rightarrow> Inl e | Inr (v, k) \<Rightarrow> Inr v)"

section \<open>Utilities (utils.js, crypto.js)\<close>

definition normalizeKey :: "env \<Rightarrow> jsstring \<Rightarrow> jsstring" where
  "normalizeKey E k = nfkc_lower E k"

subsection \<open>Hexadecimal input\<close>

text \<open>
  \<open>fromHex\<close> reads each pair of characters with \<open>parseInt(pair, 16)\<close>, which skips
  leading white space, takes a sign and a \<open>0x\<close> prefix, reads the longest run of
  hexadecimal digits and is \<open>NaN\<close> when there is none; the \<open>Uint8Array\<close> element keeps
  the number modulo 256 and 0 for \<open>NaN\<close>.
\<close>

definition hexDigit :: "jschar \<Rightarrow> int option" where
  "hexDigit c =
    (if 0x30 \<le> c \<and> c \<le> 0x39 then Some (uint c - 0x30)
     else if 0x41 \<le> c \<and> c \<le> 0x46 then Some (uint c - 0x41 + 10)
     else if 0x61 \<le> c \<and> c \<le> 0x66 then Some (uint c - 0x61 + 10)
     else None)"

definition isWhiteSpace :: "jschar \<Rightarrow> bool" where
  "isWhiteSpace c \<longleftrightarrow>
     c \<in> {0x09, 0x0a, 0x0b, 0x0c, 0x0d, 0x20, 0xa0, 0x1680, 0x2028, 0x2029, 0x202f, 0x205f,
          0x3000, 0xfeff} \<or> (0x2000 \<le> c \<and> c \<le> 0x200a)"

definition parseInt16 :: "jsstring \<Rightarrow> int option" where
  "parseInt16 s =
    (let s1 = dropWhile isWhiteSpace s;
         sgn = (case s1 of c # r \<Rightarrow> if c = 0x2d then - 1 else 1 | [] \<Rightarrow> (1::int));
         s2 = (case s1 of c # r \<Rightarrow> if c = 0x2d \<or> c = 0x2b then r else s1 | [] \<Rightarrow> s1);
         s3 = (case s2 of a # b # r \<Rightarrow> if a = 0x30 \<and> (b = 0x78 \<or> b = 0x58) then r else s2
                        | _ \<Rightarrow> s2);
         ds = takeWhile (\<lambda>c. hexDigit c \<noteq> None) s3
     in if ds = [] then None
        else Some (sgn * foldl (\<lambda>a c. 16 * a + the (hexDigit c)) 0 ds))"

definition hexByte :: "jsstring \<Rightarrow> byte" where
  "hexByte pair = (case parseInt16 pair of None \<Rightarrow> 0 | Some n \<Rightarrow> toUint8 n)"

fun hexPairs :: "jsstring \<Rightarrow> bytes" where
  "hexPairs (a # b # r) = hexByte [a, b] # hexPairs r"
| "hexPairs _ = []"

definition fromHex :: "jsstring \<Rightarrow> jserror + bytes" where
  "fromHex hexStr = (if length hexStr mod 2 \<noteq> 0 then Inl InvalidHexString
                     else Inr (hexPairs hexStr))"

subsection \<open>URL-safe base-64\<close>

definition toBase64 :: "env \<Rightarrow> bytes \<Rightarrow> jsstring" where
  "toBase64 E b =
     filter (\<lambda>c. c \<noteq> 0x3d)
       (map (\<lambda>c. if c = 0x2f then 0x5f else c)
          (map (\<lambda>c. if c = 0x2b then 0x2d else c) (base64 E b)))"

definition padBase64 :: "jsstring \<Rightarrow> jsstring" where
  "padBase64 s = s @ replicate ((4 - length s mod 4) mod 4) 0x3d"

definition fromBase64 :: "env \<Rightarrow> jsstring \<Rightarrow> bytes" where
  "fromBase64 E s =
     base64_decode E
       (padBase64 (map (\<lambda>c. if c = 0x5f then 0x2f else c)
          (map (\<lambda>c. if c = 0x2d then 0x2b else c) s)))"

definition hash :: "env \<Rightarrow> bytes \<Rightarrow> jsstring" where
  "hash E d = toBase64 E (sha256 E d)"

subsection \<open>The handle suffix\<close>

text \<open>
  \<open>a % m\<close> takes the sign of \<open>a\<close>; \<open>toString\<close> of a non-negative integer is its
  decimal digits; \<open>padStart\<close> fills on the left up to the length asked for.
\<close>

definition jsRem :: "int \<Rightarrow> int \<Rightarrow> int" where
  "jsRem a m = (if a < 0 then - ((- a) mod m) else a mod m)"

function toStringNat :: "nat \<Rightarrow> jsstring" where
  "toStringNat n =
     (if n < 10 then [word_of_nat (48 + n)]
      else toStringNat (n div 10) @ [word_of_nat (48 + n mod 10)])"
  by pat_completeness auto
termination
  by (relation "measure id") auto

declare toStringNat.simps [simp del]

definition padStart :: "nat \<Rightarrow> jschar \<Rightarrow> jsstring \<Rightarrow> jsstring" where
  "padStart n c s = replicate (n - length s) c @ s"

definition suffixOfHash :: "bytes \<Rightarrow> nat \<Rightarrow> jsstring" where
  "suffixOfHash hashBytes len =
    (let num = bor (bor (bor (shl (byteAt hashBytes 0) 24) (shl (byteAt hashBytes 1) 16))
                        (shl (byteAt hashBytes 2) 8))
                   (byteAt hashBytes 3)
     in padStart len 0x30 (toStringNat (nat \<bar>jsRem num (10 ^ len)\<bar>)))"

definition computeSuffix :: "env \<Rightarrow> jsstring \<Rightarrow> nat \<Rightarrow> jserror + jsstring" where
  "computeSuffix E pubKeyHex len =
    (case fromHex pubKeyHex of
       Inl e \<Rightarrow> Inl e
     | Inr input \<Rightarrow> Inr (suffixOfHash (sha256 E input) len))"

text \<open>
  The suffix as the specification words it: the first four bytes of the digest as an
  unsigned big-endian 32-bit integer, modulo \<open>10 ^ n\<close>, zero-padded to \<open>n\<close> digits.
\<close>

definition spec_suffix :: "bytes \<Rightarrow> nat \<Rightarrow> jsstring" where
  "spec_suffix hashBytes n =
    (let u = byteAt hashBytes 0 * 2 ^ 24 + byteAt hashBytes 1 * 2 ^ 16
             + byteAt hashBytes 2 * 2 ^ 8 + byteAt hashBytes 3
     in padStart n 0x30 (toStringNat (nat (u mod 10 ^ n))))"

text \<open>The same four bytes read as a signed (two's complement) big-endian integer.\<close>

definition signedBE32 :: "bytes \<Rightarrow> int" where
  "signedBE32 hashBytes =
    (let u = byteAt hashBytes 0 * 2 ^ 24 + byteAt hashBytes 1 * 2 ^ 16
             + byteAt hashBytes 2 * 2 ^ 8 + byteAt hashBytes 3
     in if u \<ge> 2 ^ 31 then u - 2 ^ 32 else u)"

subsection \<open>The LRU cache\<close>

text \<open>A \<open>Map\<close> in insertion order: the head of the list is the oldest entry.\<close>

type_synonym ('k, 'v) lru = "('k \<times> 'v) list"

definition lruGet :: "('k, 'v) lru \<Rightarrow> 'k \<Rightarrow> 'v option \<times> ('k, 'v) lru" where
  "lruGet c k =
    (case map_of c k of
       None \<Rightarrow> (None, c)
     | Some v \<Rightarrow> (Some v, AList.delete k c @ [(k, v)]))"

definition lruSet :: "nat \<Rightarrow> ('k, 'v) lru \<Rightarrow> 'k \<Rightarrow> 'v \<Rightarrow> ('k, 'v) lru" where
  "lruSet maxSize c k v =
    (let c' = AList.delete k c @ [(k, v)]
     in if length c' > maxSize then tl c' else c')"

section \<open>Username claims (claims.js)\<close>

record claim =
  username :: jsstring
  pubKey :: jsstring
  createdAt :: int
  revoked :: bool
  signature :: jsstring

definition claimPayload :: "claim \<Rightarrow> jsval" where
  "claimPayload c =
     VObj [(ascii ''username'', VStr (username c)), (ascii ''pubKey'', VStr (pubKey c)),
           (ascii ''createdAt'', VNum (JInt (createdAt c))), (ascii ''revoked'', VBool (revoked c))]"

definition canonicalize :: "env \<Rightarrow> jsval \<Rightarrow> jsstring" where
  "canonicalize E v = stringify E v"

text \<open>\<open>verify\<close> of crypto.js: \<open>None\<close> when it throws.\<close>

definition verify :: "env \<Rightarrow> jsstring \<Rightarrow> jsstring \<Rightarrow> jsstring \<Rightarrow> bool option" where
  "verify E signatureHex message publicKeyHex = ed_verify E signatureHex message publicKeyHex"

definition createClaim :: "env \<Rightarrow> jsstring \<Rightarrow> jsstring \<Rightarrow> jsstring \<Rightarrow> int \<Rightarrow> claim option" where
  "createClaim E name publicKey privateKey now =
    (let c = \<lparr>username = name, pubKey = publicKey, createdAt = now, revoked = False, signature = []\<rparr>
     in case ed_sign E (canonicalize E (claimPayload c)) privateKey of
          None \<Rightarrow> None
        | Some sig \<Rightarrow> Some (c\<lparr>signature := sig\<rparr>))"

definition claimIsValid :: "env \<Rightarrow> claim \<Rightarrow> bool" where
  "claimIsValid E c \<longleftrightarrow> verify E (signature c) (canonicalize E (claimPayload c)) (pubKey c) = Some True"

definition resolveWinner :: "env \<Rightarrow> claim list \<Rightarrow> claim option" where
  "resolveWinner E claims =
    (if claims = [] then None
     else let activeClaims = filter (\<lambda>c. \<not> revoked c) claims in
       if activeClaims = [] then None
       else let validClaims = filter (claimIsValid E) activeClaims in
         if validClaims = [] then None
         else Some (foldl (\<lambda>earliest current.
                       if createdAt current < createdAt earliest then current else earliest)
                     (hd validClaims) (tl validClaims)))"

section \<open>The trie node (binary-node.js)\<close>

text \<open>
  A node holds its value reference (\<open>null\<close> or a string) and its children, an object from
  one-character keys to digests in base-64, listed here in insertion order. \<open>_hasValue\<close>
  is the flag the trie sets on a leaf; a node built by the constructor does not have it.
\<close>

record binaryNode =
  node_value :: "jsstring option"
  children :: "(jschar \<times> jsstring) list"
  hasValueFlag :: bool

definition emptyNode :: binaryNode where
  "emptyNode = \<lparr>node_value = None, children = [], hasValueFlag = False\<rparr>"

definition copyNode :: "binaryNode \<Rightarrow> binaryNode" where
  "copyNode n = \<lparr>node_value = node_value n, children = children n, hasValueFlag = False\<rparr>"

definition hasValue :: "binaryNode \<Rightarrow> bool" where
  "hasValue n \<longleftrightarrow> node_value n \<noteq> None \<or> hasValueFlag n"

text \<open>
  Writes into the preallocated buffer: an element write outside the buffer is ignored,
  \<open>buffer.set\<close> that does not fit throws a \<open>RangeError\<close>.
\<close>

definition bufPut :: "bytes \<Rightarrow> nat \<Rightarrow> byte \<Rightarrow> bytes" where
  "bufPut buffer i x = (if i < length buffer then buffer[i := x] else buffer)"

definition bufSet :: "bytes \<Rightarrow> bytes \<Rightarrow> nat \<Rightarrow> jserror + bytes" where
  "bufSet buffer src offset =
    (if offset + length src > length buffer then Inl RangeError
     else Inr (take offset buffer @ src @ drop (offset + length src) buffer))"

fun writeChildren :: "env \<Rightarrow> (jschar \<times> jsstring) list \<Rightarrow> jschar list \<Rightarrow> bytes \<Rightarrow> nat
                        \<Rightarrow> jserror + bytes" where
  "writeChildren E ch [] buffer offset = Inr buffer"
| "writeChildren E ch (c # cs) buffer offset =
    (let buffer1 = bufPut buffer offset (ucast c);
         hashB64 = the (map_of ch c)
     in case bufSet buffer1 (fromBase64 E hashB64) (offset + 1) of
          Inl e \<Rightarrow> Inl e
        | Inr buffer2 \<Rightarrow> writeChildren E ch cs buffer2 (offset + 33))"

definition serialize :: "env \<Rightarrow> binaryNode \<Rightarrow> jserror + bytes" where
  "serialize E n =
    (let childKeys = sort (map fst (children n));
         numChildren = length childKeys;
         hasVal = (node_value n \<noteq> None);
         isExtendedCount = (numChildren \<ge> 127);
         valueBytes = (case node_value n of None \<Rightarrow> [] | Some v \<Rightarrow> utf8_encode E v);
         size = 1 + (if isExtendedCount then 2 else 0)
                  + (if hasVal then 2 + length valueBytes else 0) + numChildren * 33;
         flags = bor (if hasVal then 1 else 0)
                     (if isExtendedCount then shl 127 1 else shl (int numChildren) 1);
         buffer0 = bufPut (replicate size 0) 0 (toUint8 flags);
         buffer1 = (if isExtendedCount
                    then bufPut (bufPut buffer0 1 (toUint8 (band (sar (int numChildren) 8) 0xff)))
                                2 (toUint8 (band (int numChildren) 0xff))
                    else buffer0);
         offset1 = (if isExtendedCount then 3 else 1);
         len = int (length valueBytes)
     in if hasVal then
          (case bufSet (bufPut (bufPut buffer1 offset1 (toUint8 (band (sar len 8) 0xff)))
                               (offset1 + 1) (toUint8 (band len 0xff)))
                       valueBytes (offset1 + 2) of
             Inl e \<Rightarrow> Inl e
           | Inr buffer2 \<Rightarrow>
               writeChildren E (children n) childKeys buffer2 (offset1 + 2 + length valueBytes))
        else writeChildren E (children n) childKeys buffer1 offset1)"

fun readChildren :: "env \<Rightarrow> nat \<Rightarrow> bytes \<Rightarrow> (jschar \<times> jsstring) list
                       \<Rightarrow> jserror + (jschar \<times> jsstring) list" where
  "readChildren E 0 b ch = Inr ch"
| "readChildren E (Suc i) b ch =
    (case b of
       [] \<Rightarrow> Inl InvalidBinaryNode
     | c # r \<Rightarrow>
         if length r < 32 then Inl InvalidBinaryNode
         else readChildren E i (drop 32 r) (AList.update (ucast c) (toBase64 E (take 32 r)) ch))"

text \<open>The part of \<open>deserialize\<close> after the flags and the child count.\<close>

definition readValueAndChildren :: "env \<Rightarrow> bool \<Rightarrow> nat \<Rightarrow> bytes \<Rightarrow> jserror + binaryNode" where
  "readValueAndChildren E hasVal numChildren r1 =
    (if hasVal then
       (if length r1 < 2 then Inl InvalidBinaryNode
        else let len = nat (rd16 r1); r2 = drop 2 r1
             in if length r2 < len then Inl InvalidBinaryNode
                else (case readChildren E numChildren (drop len r2) [] of
                        Inl e \<Rightarrow> Inl e
                      | Inr ch \<Rightarrow>
                          Inr \<lparr>node_value = Some (utf8_decode E (take len r2)),
                               children = ch, hasValueFlag = False\<rparr>))
     else (case readChildren E numChildren r1 [] of
             Inl e \<Rightarrow> Inl e
           | Inr ch \<Rightarrow> Inr \<lparr>node_value = None, children = ch, hasValueFlag = False\<rparr>))"

definition deserialize :: "env \<Rightarrow> bytes \<Rightarrow> jserror + binaryNode" where
  "deserialize E buffer =
    (case buffer of
       [] \<Rightarrow> Inl InvalidBinaryNode
     | flags # r0 \<Rightarrow>
         let hasVal = (flags AND 0x01 \<noteq> 0);
             n0 = unat (drop_bit 1 flags AND 0x7f)
         in if n0 = 127 \<and> length r0 < 2 then Inl InvalidBinaryNode
            else readValueAndChildren E hasVal
                   (if n0 = 127 then nat (rd16 r0) else n0)
                   (if n0 = 127 then drop 2 r0 else r0))"

definition getHash :: "env \<Rightarrow> binaryNode \<Rightarrow> jserror + jsstring" where
  "getHash E n = (case serialize E n of Inl e \<Rightarrow> Inl e | Inr b \<Rightarrow> Inr (toBase64 E (sha256 E b)))"

section \<open>The value store (value-store.js)\<close>

text \<open>
  The persistent byte store is the map of \<open>MemoryStorage\<close>; node images and encoded values
  live in it under their digests. The trie state is the store, the root digest and the
  three caches.
\<close>

record trie =
  storage :: "jsstring \<rightharpoonup> bytes"
  rootHash :: "jsstring option"
  nodeCache :: "(jsstring, binaryNode) lru"
  rootCache :: "(jsstring option \<times> binaryNode) option"
  valueCache :: "(jsstring, jsval) lru"

definition nodeCacheSize :: nat where "nodeCacheSize = 1000"
definition maxCacheSize :: nat where "maxCacheSize = 500"

definition isNullish :: "jsval \<Rightarrow> bool" where
  "isNullish v \<longleftrightarrow> v = VNull \<or> v = VUndefined"

definition valueStorePut :: "env \<Rightarrow> trie \<Rightarrow> jsval \<Rightarrow> jsstring option \<times> trie" where
  "valueStorePut E t v =
    (if isNullish v then (None, t)
     else
       let encoded = encode E v;
           k = ascii ''v:'' @ hash E encoded;
           st = (case storage t k of None \<Rightarrow> (storage t)(k \<mapsto> encoded) | Some existing \<Rightarrow> storage t)
       in (Some k, t\<lparr>storage := st, valueCache := lruSet maxCacheSize (valueCache t) k v\<rparr>))"

definition valueStoreGet :: "env \<Rightarrow> trie \<Rightarrow> jsstring option \<Rightarrow> (jserror + jsval) \<times> trie" where
  "valueStoreGet E t key =
    (case key of
       None \<Rightarrow> (Inr VNull, t)
     | Some k \<Rightarrow>
         if k = [] then (Inr VNull, t)
         else (case map_of (valueCache t) k of
            Some v \<Rightarrow> (Inr v, t)
          | None \<Rightarrow>
              (case storage t k of
                 None \<Rightarrow> (Inr VNull, t)
               | Some encoded \<Rightarrow>
                   (case decode E encoded of
                      Inl e \<Rightarrow> (Inl e, t)
                    | Inr v \<Rightarrow> (Inr v, t\<lparr>valueCache := lruSet maxCacheSize (valueCache t) k v\<rparr>)))))"

section \<open>The trie (binary-trie.js)\<close>

definition getRoot :: "env \<Rightarrow> trie \<Rightarrow> (jserror + binaryNode) \<times> trie" where
  "getRoot E t =
    (if (case rootCache t of Some (h, node) \<Rightarrow> h = rootHash t | None \<Rightarrow> False)
     then (Inr (snd (the (rootCache t))), t)
     else (case rootHash t of
        None \<Rightarrow> (Inr emptyNode, t\<lparr>rootCache := Some (None, emptyNode)\<rparr>)
      | Some h \<Rightarrow>
          if h = [] then (Inr emptyNode, t\<lparr>rootCache := Some (None, emptyNode)\<rparr>)
          else (case storage t h of
             None \<Rightarrow> (Inr emptyNode, t\<lparr>rootCache := Some (None, emptyNode)\<rparr>)
           | Some buffer \<Rightarrow>
               (case deserialize E buffer of
                  Inl e \<Rightarrow> (Inl e, t)
                | Inr node \<Rightarrow> (Inr node, t\<lparr>rootCache := Some (Some h, node)\<rparr>)))))"

text \<open>\<open>for (const char of path)\<close>: one string per code point, a surrogate pair together.\<close>

definition isHighSurrogate :: "jschar \<Rightarrow> bool" where
  "isHighSurrogate c \<longleftrightarrow> 0xd800 \<le> c \<and> c \<le> 0xdbff"

definition isLowSurrogate :: "jschar \<Rightarrow> bool" where
  "isLowSurrogate c \<longleftrightarrow> 0xdc00 \<le> c \<and> c \<le> 0xdfff"

fun codePoints :: "jsstring \<Rightarrow> jsstring list" where
  "codePoints (a # b # r) =
     (if isHighSurrogate a \<and> isLowSurrogate b then [a, b] # codePoints r
      else [a] # codePoints (b # r))"
| "codePoints [a] = [[a]]"
| "codePoints [] = []"

text \<open>
  \<open>node.children[char]\<close>: the keys of a children object are single code units, so a
  two-unit \<open>char\<close> finds nothing; a missing entry and an empty digest are both falsy.
\<close>

definition childLookup :: "binaryNode \<Rightarrow> jsstring \<Rightarrow> jsstring option" where
  "childLookup n char =
    (case char of
       [c] \<Rightarrow> (case map_of (children n) c of
                 None \<Rightarrow> None
               | Some h \<Rightarrow> if h = [] then None else Some h)
     | _ \<Rightarrow> None)"

fun getWalk :: "env \<Rightarrow> trie \<Rightarrow> binaryNode \<Rightarrow> jsstring list
                  \<Rightarrow> (jserror + binaryNode option) \<times> trie" where
  "getWalk E t currentNode [] = (Inr (Some currentNode), t)"
| "getWalk E t currentNode (char # rest) =
    (case childLookup currentNode char of
       None \<Rightarrow> (Inr None, t)
     | Some childHash \<Rightarrow>
         (case lruGet (nodeCache t) childHash of
            (Some cached, c') \<Rightarrow> getWalk E (t\<lparr>nodeCache := c'\<rparr>) cached rest
          | (None, c') \<Rightarrow>
              (case storage t childHash of
                 None \<Rightarrow> (Inr None, t)
               | Some childBuffer \<Rightarrow>
                   (case deserialize E childBuffer of
                      Inl e \<Rightarrow> (Inl e, t)
                    | Inr node \<Rightarrow>
                        getWalk E (t\<lparr>nodeCache := lruSet nodeCacheSize (nodeCache t) childHash node\<rparr>)
                          node rest))))"

definition trieGet :: "env \<Rightarrow> trie \<Rightarrow> jsstring \<Rightarrow> (jserror + jsval) \<times> trie" where
  "trieGet E t key =
    (let path = normalizeKey E key in
     case getRoot E t of
       (Inl e, t1) \<Rightarrow> (Inl e, t1)
     | (Inr root, t1) \<Rightarrow>
         (case getWalk E t1 root (codePoints path) of
            (Inl e, t2) \<Rightarrow> (Inl e, t2)
          | (Inr None, t2) \<Rightarrow> (Inr VNull, t2)
          | (Inr (Some currentNode), t2) \<Rightarrow>
              if hasValue currentNode then valueStoreGet E t2 (node_value currentNode)
              else (Inr VNull, t2)))"

text \<open>The descent of \<open>put\<close>: the copies of the nodes below \<open>currentNode\<close> along the path.\<close>

fun putWalk :: "env \<Rightarrow> trie \<Rightarrow> binaryNode \<Rightarrow> jsstring list
                  \<Rightarrow> (jserror + binaryNode list) \<times> trie" where
  "putWalk E t currentNode [] = (Inr [], t)"
| "putWalk E t currentNode (char # rest) =
    (case (case childLookup currentNode char of
             None \<Rightarrow> (Inr emptyNode, t)
           | Some childHash \<Rightarrow>
               (case lruGet (nodeCache t) childHash of
                  (Some cached, c') \<Rightarrow> (Inr (copyNode cached), t\<lparr>nodeCache := c'\<rparr>)
                | (None, c') \<Rightarrow>
                    (case storage t childHash of
                       None \<Rightarrow> (Inr (copyNode emptyNode), t)
                     | Some childBuffer \<Rightarrow>
                         (case deserialize E childBuffer of
                            Inl e \<Rightarrow> (Inl e, t)
                          | Inr node \<Rightarrow>
                              (Inr (copyNode node),
                               t\<lparr>nodeCache := lruSet nodeCacheSize (nodeCache t) childHash node\<rparr>)))))
     of
       (Inl e, t1) \<Rightarrow> (Inl e, t1)
     | (Inr childNode, t1) \<Rightarrow>
         (case putWalk E t1 childNode rest of
            (Inl e, t2) \<Rightarrow> (Inl e, t2)
          | (Inr below, t2) \<Rightarrow> (Inr (childNode # below), t2)))"

text \<open>
  The way back up: \<open>for (i = path.length - 1; i >= 0; i--)\<close> indexes the stack and the
  path by code unit. \<open>n\<close> iterations remain and the next index is \<open>n - 1\<close>. An index past
  the stack reads \<open>undefined\<close>, whose \<open>children\<close> is a \<open>TypeError\<close>. The node cache holds
  references: when the node written is the leaf object itself (index \<open>leafIndex\<close>), the
  entry made for the leaf shows the change too.
\<close>

fun putClimb :: "env \<Rightarrow> jsstring \<Rightarrow> nat \<Rightarrow> jsstring \<Rightarrow> nat \<Rightarrow> binaryNode list
                   \<Rightarrow> (jsstring, binaryNode) lru \<Rightarrow> jsstring \<Rightarrow> (jsstring \<times> bytes) list
                   \<Rightarrow> (jserror + binaryNode list \<times> jsstring \<times> (jsstring \<times> bytes) list)
                      \<times> (jsstring, binaryNode) lru" where
  "putClimb E path leafIndex leafHash 0 stack cache childHash nodesToSave =
     (Inr (stack, childHash, nodesToSave), cache)"
| "putClimb E path leafIndex leafHash (Suc i) stack cache childHash nodesToSave =
    (if i \<ge> length stack then (Inl TypeError, cache)
     else
       let parent = (stack ! i)\<lparr>children := AList.update (path ! i) childHash (children (stack ! i))\<rparr>;
           cache1 = (if i = leafIndex
                     then map (\<lambda>kv. if fst kv = leafHash then (fst kv, parent) else kv) cache
                     else cache)
       in case serialize E parent of
            Inl e \<Rightarrow> (Inl e, cache1)
          | Inr img \<Rightarrow>
              let h = toBase64 E (sha256 E img)
              in putClimb E path leafIndex leafHash i (stack[i := parent])
                   (lruSet nodeCacheSize cache1 h parent) h (nodesToSave @ [(h, img)]))"

definition storagePutAll :: "(jsstring \<rightharpoonup> bytes) \<Rightarrow> (jsstring \<times> bytes) list \<Rightarrow> (jsstring \<rightharpoonup> bytes)" where
  "storagePutAll st nodesToSave = foldl (\<lambda>m kv. m(fst kv \<mapsto> snd kv)) st nodesToSave"

text \<open>
  \<open>put\<close> up to its batch write: the value is stored, the leaf and then every node above it
  are rewritten, hashed, queued in \<open>nodesToSave\<close> and entered in the node cache.
\<close>

definition putPath :: "env \<Rightarrow> trie \<Rightarrow> jsstring \<Rightarrow> jsval
                         \<Rightarrow> (jserror + binaryNode list \<times> jsstring \<times> (jsstring \<times> bytes) list) \<times> trie" where
  "putPath E t key v =
    (let path = normalizeKey E key in
     case getRoot E t of
       (Inl e, t1) \<Rightarrow> (Inl e, t1)
     | (Inr oldRoot, t1) \<Rightarrow>
         (case putWalk E t1 (copyNode oldRoot) (codePoints path) of
            (Inl e, t2) \<Rightarrow> (Inl e, t2)
          | (Inr below, t2) \<Rightarrow>
              let stack0 = copyNode oldRoot # below;
                  leafIndex = length stack0 - 1;
                  (valueKey, t3) = valueStorePut E t2 v;
                  leaf = (last stack0)\<lparr>node_value := valueKey, hasValueFlag := True\<rparr>;
                  stack1 = stack0[leafIndex := leaf]
              in case serialize E leaf of
                   Inl e \<Rightarrow> (Inl e, t3)
                 | Inr img \<Rightarrow>
                     let leafHash = toBase64 E (sha256 E img);
                         cache0 = lruSet nodeCacheSize (nodeCache t3) leafHash leaf
                     in case putClimb E path leafIndex leafHash (length path) stack1 cache0
                               leafHash [(leafHash, img)] of
                          (r, cache1) \<Rightarrow> (r, t3\<lparr>nodeCache := cache1\<rparr>)))"

definition triePut :: "env \<Rightarrow> trie \<Rightarrow> jsstring \<Rightarrow> jsval \<Rightarrow> (jserror + jsstring) \<times> trie" where
  "triePut E t key v =
    (case putPath E t key v of
       (Inl e, t') \<Rightarrow> (Inl e, t')
     | (Inr (stack2, newRoot, nodesToSave), t') \<Rightarrow>
         (Inr newRoot,
          t'\<lparr>storage := storagePutAll (storage t') nodesToSave,
             rootHash := Some newRoot,
             rootCache := Some (Some newRoot, hd stack2)\<rparr>))"

section \<open>The coordinator (index.js)\<close>

text \<open>
  The instance: the trie, the identity's public key (absent before signup), the runtime
  keys (private key and data key, present while logged in) and the head pointer with its
  write coalescing. The head cell is kept apart from the byte store (its key \<open>head\<close> is
  not a digest). The instance is not connected to a network, timers are not modelled, and
  event callbacks do not call back into the instance.
\<close>

record railgun =
  rg_trie :: trie
  identity :: "jsstring option"
  runtime :: "(jsstring \<times> jsstring) option"
  pendingHead :: "jsstring option"
  headSaveCount :: nat
  savedHead :: "jsstring option"

record payload =
  pkey :: jsstring
  pvalue :: jsval
  timestamp :: int
  author :: jsstring
  isEncrypted :: bool
  space :: jsstring

record envelope =
  epayload :: payload
  esignature :: jsstring

record putOptions =
  opt_space :: "jsstring option"
  volatile :: bool
  silent :: bool

definition payloadVal :: "payload \<Rightarrow> jsval" where
  "payloadVal p =
     VObj [(ascii ''key'', VStr (pkey p)), (ascii ''value'', pvalue p),
           (ascii ''timestamp'', VNum (JInt (timestamp p))), (ascii ''author'', VStr (author p)),
           (ascii ''isEncrypted'', VBool (isEncrypted p)), (ascii ''space'', VStr (space p))]"

definition envelopeVal :: "envelope \<Rightarrow> jsval" where
  "envelopeVal e =
     VObj [(ascii ''payload'', payloadVal (epayload e)), (ascii ''signature'', VStr (esignature e))]"

subsection \<open>Reading JavaScript values\<close>

definition isNaNBits :: "64 word \<Rightarrow> bool" where
  "isNaNBits w \<longleftrightarrow> w AND 0x7ff0000000000000 = 0x7ff0000000000000 \<and> w AND 0x000fffffffffffff \<noteq> 0"

fun truthy :: "jsval \<Rightarrow> bool" where
  "truthy VNull = False"
| "truthy VUndefined = False"
| "truthy (VBool b) = b"
| "truthy (VNum (JInt i)) = (i \<noteq> 0)"
| "truthy (VNum (JDbl w)) = (\<not> isNaNBits w)"
| "truthy (VStr s) = (s \<noteq> [])"
| "truthy (VBin b) = True"
| "truthy (VArr xs) = True"
| "truthy (VObj kvs) = True"

text \<open>\<open>v.name\<close> for a \<open>v\<close> that is neither \<open>null\<close> nor \<open>undefined\<close>, and a field name.\<close>

definition getProp :: "jsval \<Rightarrow> string \<Rightarrow> jsval" where
  "getProp v name =
    (case v of
       VObj kvs \<Rightarrow> (case map_of kvs (ascii name) of Some x \<Rightarrow> x | None \<Rightarrow> VUndefined)
     | _ \<Rightarrow> VUndefined)"



subsection \<open>The head pointer\<close>

definition flushHead :: "railgun \<Rightarrow> railgun" where
  "flushHead rg =
    (case pendingHead rg of
       None \<Rightarrow> rg
     | Some h \<Rightarrow> if h = [] then rg
                 else rg\<lparr>savedHead := Some h, pendingHead := None, headSaveCount := 0\<rparr>)"

definition headSaveBatchSize :: nat where "headSaveBatchSize = 5"

definition saveHead :: "railgun \<Rightarrow> jsstring \<Rightarrow> railgun" where
  "saveHead rg h =
    (let rg1 = rg\<lparr>pendingHead := Some h, headSaveCount := headSaveCount rg + 1\<rparr>
     in if headSaveCount rg1 \<ge> headSaveBatchSize then flushHead rg1 else rg1)"

subsection \<open>put and get\<close>

definition loggedIn :: "railgun \<Rightarrow> bool" where
  "loggedIn rg \<longleftrightarrow> (case runtime rg of None \<Rightarrow> False | Some (privateKey, dataKey) \<Rightarrow> privateKey \<noteq> [])"

definition spaceOf :: "jsstring option \<Rightarrow> jsstring" where
  "spaceOf o_space = (case o_space of None \<Rightarrow> ascii ''all'' | Some s \<Rightarrow> if s = [] then ascii ''all'' else s)"

text \<open>
  The signed envelope of a write, and its storage in the trie: the part of \<open>put\<close> after the
  space has been resolved. \<open>now\<close> is \<open>Date.now()\<close>.
\<close>

definition signEnvelope :: "env \<Rightarrow> railgun \<Rightarrow> jsstring \<Rightarrow> jsval \<Rightarrow> bool \<Rightarrow> jsstring \<Rightarrow> int
                             \<Rightarrow> jserror + envelope" where
  "signEnvelope E rg storageKey finalValue isEnc sp now =
    (case identity rg of
       None \<Rightarrow> Inl TypeError
     | Some publicKey \<Rightarrow>
         let p = \<lparr>pkey = storageKey, pvalue = finalValue, timestamp = now, author = publicKey,
                   isEncrypted = isEnc, space = sp\<rparr>
         in case ed_sign E (canonicalize E (payloadVal p)) (fst (the (runtime rg))) of
              None \<Rightarrow> Inl CryptoFailure
            | Some sig \<Rightarrow> Inr \<lparr>epayload = p, esignature = sig\<rparr>)"

definition putEnvelope :: "env \<Rightarrow> railgun \<Rightarrow> putOptions \<Rightarrow> jsstring \<Rightarrow> jsval \<Rightarrow> bool \<Rightarrow> jsstring
                            \<Rightarrow> int \<Rightarrow> (jserror + jsstring option) \<times> railgun" where
  "putEnvelope E rg options storageKey finalValue isEnc sp now =
    (case signEnvelope E rg storageKey finalValue isEnc sp now of
       Inl e \<Rightarrow> (Inl e, rg)
     | Inr envlp \<Rightarrow>
         if volatile options then (Inr None, rg)
         else (case triePut E (rg_trie rg) storageKey (envelopeVal envlp) of
                 (Inl e, t) \<Rightarrow> (Inl e, rg\<lparr>rg_trie := t\<rparr>)
               | (Inr newRoot, t) \<Rightarrow> (Inr (Some newRoot), saveHead (rg\<lparr>rg_trie := t\<rparr>) newRoot)))"

definition put :: "env \<Rightarrow> railgun \<Rightarrow> jsstring \<Rightarrow> jsval \<Rightarrow> putOptions \<Rightarrow> int \<Rightarrow> bytes
                    \<Rightarrow> (jserror + jsstring option) \<times> railgun" where
  "put E rg key v options now iv =
    (if \<not> loggedIn rg then (Inl MustBeLoggedIn, rg)
     else
       let sp = spaceOf (opt_space options) in
       if sp = ascii ''all'' then
         putEnvelope E rg options (ascii ''all/'' @ key) v False sp now
       else if sp = ascii ''frozen'' then
         (case trieGet E (rg_trie rg) (ascii ''frozen/'' @ key) of
            (Inl e, t) \<Rightarrow> (Inl e, rg\<lparr>rg_trie := t\<rparr>)
          | (Inr existing, t) \<Rightarrow>
              if truthy existing then (Inl FrozenImmutable, rg\<lparr>rg_trie := t\<rparr>)
              else putEnvelope E (rg\<lparr>rg_trie := t\<rparr>) options (ascii ''frozen/'' @ key) v False sp now)
       else if sp = ascii ''user'' then
         (case identity rg of
            None \<Rightarrow> (Inl TypeError, rg)
          | Some publicKey \<Rightarrow>
              (case json_stringify E v of
                 None \<Rightarrow> (Inl TypeError, rg)
               | Some plain \<Rightarrow>
                   (case aes_encrypt E plain (snd (the (runtime rg))) iv of
                      None \<Rightarrow> (Inl CryptoFailure, rg)
                    | Some cipher \<Rightarrow>
                        putEnvelope E rg options (ascii ''user/'' @ publicKey @ ascii ''/'' @ key)
                          (VStr cipher) True sp now)))
       else (Inl UnknownSpace, rg))"

text \<open>\<open>decryptData(val, key)\<close> followed by \<open>JSON.parse\<close>; a value that is not a string fails in \<open>fromHex\<close>.\<close>

definition decryptValue :: "env \<Rightarrow> jsval \<Rightarrow> jsstring \<Rightarrow> jserror + jsval" where
  "decryptValue E val dataKey =
    (case val of
       VStr cipher \<Rightarrow>
         (case aes_decrypt E cipher dataKey of
            None \<Rightarrow> Inl CryptoFailure
          | Some decStr \<Rightarrow> (case json_parse E decStr of None \<Rightarrow> Inl SyntaxError | Some x \<Rightarrow> Inr x))
     | VNull \<Rightarrow> Inl TypeError
     | VUndefined \<Rightarrow> Inl TypeError
     | VArr xs \<Rightarrow> if even (length xs) then Inl TypeError else Inl InvalidHexString
     | VBin b \<Rightarrow> if even (length b) then Inl TypeError else Inl InvalidHexString
     | _ \<Rightarrow> Inl InvalidHexString)"

definition get :: "env \<Rightarrow> railgun \<Rightarrow> jsstring \<Rightarrow> jsstring option \<Rightarrow> (jserror + jsval) \<times> railgun" where
  "get E rg key o_space =
    (let sp = spaceOf o_space;
         resolved =
           (if sp = ascii ''all'' then Inr (ascii ''all/'' @ key)
            else if sp = ascii ''frozen'' then Inr (ascii ''frozen/'' @ key)
            else if sp = ascii ''user'' then
              (case identity rg of
                 None \<Rightarrow> Inl LoginRequired
               | Some publicKey \<Rightarrow> Inr (ascii ''user/'' @ publicKey @ ascii ''/'' @ key))
            else Inr key)
     in case resolved of
          Inl e \<Rightarrow> (Inl e, rg)
        | Inr storageKey \<Rightarrow>
            (case trieGet E (rg_trie rg) storageKey of
               (Inl e, t) \<Rightarrow> (Inl e, rg\<lparr>rg_trie := t\<rparr>)
             | (Inr envlp, t) \<Rightarrow>
                 let rg1 = rg\<lparr>rg_trie := t\<rparr> in
                 if \<not> truthy envlp then (Inr VNull, rg1)
                 else if isNullish (getProp envlp ''payload'') then (Inl TypeError, rg1)
                 else
                   let val = getProp (getProp envlp ''payload'') ''value'' in
                   if truthy (getProp (getProp envlp ''payload'') ''isEncrypted'') \<and> sp = ascii ''user''
                   then (case runtime rg of
                           None \<Rightarrow> (Inl LockedWallet, rg1)
                         | Some (privateKey, dataKey) \<Rightarrow>
                             if dataKey = [] then (Inl LockedWallet, rg1)
                             else (case decryptValue E val dataKey of
                                     Inl e \<Rightarrow> (Inl e, rg1)
                                   | Inr x \<Rightarrow> (Inr x, rg1)))
                   else (Inr val, rg1)))"

subsection \<open>merge\<close>











section \<open>Notions used in the statements\<close>

text \<open>
  The bytes a node is stored as, and the children read back from them. \<open>lowKey\<close> is
  what one byte keeps of a child key; \<open>sameNode\<close> is equality of two nodes as
  JavaScript objects (the same value and the same children, whatever the order in which
  the children were inserted); a well-formed node has one entry per key, digests that are
  the base-64 of 32 bytes, and a value reference that UTF-8 carries faithfully in fewer
  than 65536 bytes.
\<close>

definition lowKey :: "jschar \<Rightarrow> jschar" where
  "lowKey c = ucast (ucast c :: byte)"

definition childrenImage :: "env \<Rightarrow> (jschar \<times> jsstring) list \<Rightarrow> jschar list \<Rightarrow> bytes" where
  "childrenImage E ch keys = concat (map (\<lambda>c. ucast c # fromBase64 E (the (map_of ch c))) keys)"

definition nodeImage :: "env \<Rightarrow> binaryNode \<Rightarrow> bytes" where
  "nodeImage E n =
    (let keys = sort (map fst (children n));
         N = length keys;
         hv = (node_value n \<noteq> None)
     in toUint8 (bor (if hv then 1 else 0) (if N \<ge> 127 then shl 127 1 else shl (int N) 1))
        # (if N \<ge> 127 then [toUint8 (band (sar (int N) 8) 0xff), toUint8 (band (int N) 0xff)] else [])
        @ (case node_value n of
             None \<Rightarrow> []
           | Some v \<Rightarrow> [toUint8 (band (sar (int (length (utf8_encode E v))) 8) 0xff),
                        toUint8 (band (int (length (utf8_encode E v))) 0xff)] @ utf8_encode E v)
        @ childrenImage E (children n) keys)"

definition rebuiltChildren :: "env \<Rightarrow> (jschar \<times> jsstring) list \<Rightarrow> (jschar \<times> jsstring) list" where
  "rebuiltChildren E ch =
     foldl (\<lambda>a c. AList.update (lowKey c) (toBase64 E (fromBase64 E (the (map_of ch c)))) a) []
       (sort (map fst ch))"

definition latin1Keys :: "binaryNode \<Rightarrow> bool" where
  "latin1Keys n \<longleftrightarrow> (\<forall>c \<in> set (map fst (children n)). c < 256)"

definition wellFormedNode :: "env \<Rightarrow> binaryNode \<Rightarrow> bool" where
  "wellFormedNode E n \<longleftrightarrow>
     distinct (map fst (children n))
     \<and> (\<forall>kv \<in> set (children n). length (fromBase64 E (snd kv)) = 32
                                  \<and> toBase64 E (fromBase64 E (snd kv)) = snd kv)
     \<and> (\<forall>v. node_value n = Some v \<longrightarrow>
              utf8_decode E (utf8_encode E v) = v \<and> length (utf8_encode E v) < 65536)"

definition sameNode :: "binaryNode \<Rightarrow> binaryNode \<Rightarrow> bool" where
  "sameNode m n \<longleftrightarrow>
     node_value m = node_value n \<and> map_of (children m) = map_of (children n)
     \<and> distinct (map fst (children m)) \<and> distinct (map fst (children n))"

section \<open>Fixtures\<close>

text \<open>
  A small platform for the concrete runs below: a 32-byte checksum in the place of SHA-256
  (a first byte that, for the image of a node with one child and no value, is one more than
  the first byte of the child's checksum, and 0 otherwise; then the first bytes of the
  input), two letters per byte in the place of base-64, Latin-1 in the place of UTF-8, ASCII
  lower-casing as normalisation, and a signature that is the key followed by the message
  (so the private key of an identity is its public key).
\<close>

definition testHeight :: "bytes \<Rightarrow> byte" where
  "testHeight b = (case b of flags # c # h # r \<Rightarrow> if flags = 0x02 then h + 1 else 0 | _ \<Rightarrow> 0)"

definition testDigest :: "bytes \<Rightarrow> bytes" where
  "testDigest b = take 32 (testHeight b # b @ replicate 32 0)"

definition letter :: "nat \<Rightarrow> jschar" where
  "letter k = of_nat (97 + k)"

definition unletter :: "jschar \<Rightarrow> nat" where
  "unletter c = unat c - 97"

definition testBase64 :: "bytes \<Rightarrow> jsstring" where
  "testBase64 b = concat (map (\<lambda>x. [letter (unat x div 16), letter (unat x mod 16)]) b)"

fun testBase64Pairs :: "jsstring \<Rightarrow> bytes" where
  "testBase64Pairs (a # b # r) = of_nat (16 * unletter a + unletter b) # testBase64Pairs r"
| "testBase64Pairs r = []"

definition testBase64Decode :: "jsstring \<Rightarrow> bytes" where
  "testBase64Decode s = testBase64Pairs (filter (\<lambda>c. c \<noteq> 0x3d) s)"

definition testLower :: "jsstring \<Rightarrow> jsstring" where
  "testLower s = map (\<lambda>c. if 0x41 \<le> c \<and> c \<le> 0x5a then c + 0x20 else c) s"

definition word64Bytes :: "64 word \<Rightarrow> bytes" where
  "word64Bytes w = map (\<lambda>k. ucast (drop_bit (8 * k) w)) [7, 6, 5, 4, 3, 2, 1, 0]"

definition testFloatBytes :: "jsnum \<Rightarrow> bytes" where
  "testFloatBytes n = (case n of JInt i \<Rightarrow> word64Bytes (word_of_int i) | JDbl w \<Rightarrow> word64Bytes w)"

definition testFloatRead :: "bytes \<Rightarrow> jsnum" where
  "testFloatRead b = JInt (foldl (\<lambda>a x. 256 * a + uint x) 0 b)"

fun testRender :: "jsval \<Rightarrow> jsstring" where
  "testRender VNull = ascii ''null''"
| "testRender VUndefined = []"
| "testRender (VBool b) = (if b then ascii ''true'' else ascii ''false'')"
| "testRender (VNum (JInt i)) = (if i < 0 then ascii ''-'' else []) @ toStringNat (nat \<bar>i\<bar>)"
| "testRender (VNum (JDbl w)) = ascii ''d''"
| "testRender (VStr s) = ascii [CHR 0x22] @ s @ ascii [CHR 0x22]"
| "testRender (VBin b) = ascii ''b''"
| "testRender (VArr xs) = ascii ''['' @ concat (map (\<lambda>x. testRender x @ ascii '','') xs) @ ascii '']''"
| "testRender (VObj kvs) =
     ascii ''{'' @ concat (map (\<lambda>kv. fst kv @ ascii '':'' @ testRender (snd kv) @ ascii '','') kvs)
     @ ascii ''}''"

definition testVerify :: "jsstring \<Rightarrow> jsstring \<Rightarrow> jsstring \<Rightarrow> bool option" where
  "testVerify sig msg pk = Some (sig = pk @ msg)"

definition testSign :: "jsstring \<Rightarrow> jsstring \<Rightarrow> jsstring option" where
  "testSign msg sk = Some (sk @ msg)"

definition testEncrypt :: "jsstring \<Rightarrow> jsstring \<Rightarrow> bytes \<Rightarrow> jsstring option" where
  "testEncrypt plain k iv = Some (k @ plain)"

definition testDecrypt :: "jsstring \<Rightarrow> jsstring \<Rightarrow> jsstring option" where
  "testDecrypt cipher k =
     (if take (length k) cipher = k then Some (drop (length k) cipher) else None)"

definition testEnv :: env where
  "testEnv =
     \<lparr>sha256 = testDigest, base64 = testBase64, base64_decode = testBase64Decode,
      utf8_encode = map ucast, utf8_decode = map ucast, nfkc_lower = testLower,
      float64_bytes = testFloatBytes, float64_read = testFloatRead,
      to_property_key = (\<lambda>v. []), stringify = testRender,
      ed_verify = testVerify, ed_sign = testSign,
      json_stringify = (\<lambda>v. Some (testRender v)), json_parse = (\<lambda>s. None),
      aes_encrypt = testEncrypt, aes_decrypt = testDecrypt, coerce_ge = (\<lambda>v t. False)\<rparr>"

text \<open>
  Nodes for the concrete runs: a digest in base-64 (of the test platform), a node with two
  Latin-1 children inserted as \<open>b\<close>, \<open>a\<close>, the same node with the children inserted as
  \<open>a\<close>, \<open>b\<close>, a node whose only child is under the CJK character U+4E2D, and a node
  with children under U+0141 and under \<open>B\<close>.
\<close>

definition sampleHash :: jsstring where
  "sampleHash = ascii ''bcbcbcbcbcbcbcbcbcbcbcbcbcbcbcbcbcbcbcbcbcbcbcbcbcbcbcbcbcbcbcbc''"

definition sampleNode :: binaryNode where
  "sampleNode = \<lparr>node_value = Some (ascii ''v:x''),
                  children = [(0x62, sampleHash), (0x61, sampleHash)], hasValueFlag = False\<rparr>"

definition sampleNodeReordered :: binaryNode where
  "sampleNodeReordered = \<lparr>node_value = Some (ascii ''v:x''),
                  children = [(0x61, sampleHash), (0x62, sampleHash)], hasValueFlag = True\<rparr>"

definition skewNode :: binaryNode where
  "skewNode = \<lparr>node_value = None, children = [(0x141, sampleHash), (0x42, sampleHash)],
                hasValueFlag = False\<rparr>"

definition cjkNode :: binaryNode where
  "cjkNode = \<lparr>node_value = None, children = [(0x4e2d, sampleHash)], hasValueFlag = False\<rparr>"

text \<open>
  An instance that has just been created and logged in (identity \<open>aa\<close>, nothing stored),
  the options of a plain \<open>put\<close>, the key \<open>U+1F600\<close> (one character, two code units), and
  an envelope whose signature is not the author's.
\<close>

definition emptyTrie :: trie where
  "emptyTrie = \<lparr>storage = Map.empty, rootHash = None, nodeCache = [], rootCache = None,
                 valueCache = []\<rparr>"

definition freshInstance :: railgun where
  "freshInstance = \<lparr>rg_trie = emptyTrie, identity = Some (ascii ''aa''),
                     runtime = Some (ascii ''aa'', ascii ''dk''), pendingHead = None,
                     headSaveCount = 0, savedHead = None\<rparr>"

definition defaultOptions :: putOptions where
  "defaultOptions = \<lparr>opt_space = None, volatile = False, silent = False\<rparr>"

definition emojiKey :: jsstring where
  "emojiKey = [0xd83d, 0xde00]"


text \<open>Two claims of the name \<open>carol\<close> made in the same millisecond by two keys.\<close>

definition claimA :: claim where
  "claimA = the (createClaim testEnv (ascii ''carol'') (ascii ''aa'') (ascii ''aa'') 10)"

definition claimB :: claim where
  "claimB = the (createClaim testEnv (ascii ''carol'') (ascii ''bb'') (ascii ''bb'') 10)"

text \<open>
  The SHA-256 digest of the 32-byte key \<open>04 04 ... 04\<close>; its first byte has the top
  bit set.
\<close>

definition digest_of_key_04 :: bytes where
  "digest_of_key_04 =
     [0x9f, 0x4f, 0xb6, 0x8f, 0x3e, 0x1d, 0xac, 0x82, 0x20, 0x2f, 0x9a, 0xa5, 0x81, 0xce, 0x0b, 0xbf,
      0x1f, 0x76, 0x5d, 0xf0, 0xe9, 0xac, 0x3c, 0x8c, 0x57, 0xe2, 0x0f, 0x68, 0x5a, 0xba, 0xb8, 0xed]"

chapter \<open>Properties\<close>

section \<open>The byte codec\<close>

lemma encode_minus_129: "encode E (VNum (JInt (- 129))) = [0xd1, 0xff, 0x7f]"
  by (simp add: encode_def encodeInt_def toUint8_def band_def sar_def toInt32_def)

lemma decode_d1_ff_7f: "decode E [0xd1, 0xff, 0x7f] = Inr (VNum (JInt 65407))"
  by (simp add: decode_def decodeTag_def rd16_def bor_def shl_def byteAt_def toInt32_def)

text \<open>
  C7 (the codec round trip) fails on the code: an integer from -32768 to -129 is written
  as a 16-bit two's complement number under tag \<open>0xd1\<close>, and the decoder's \<open>0xd1\<close> case
  joins the two bytes without extending the sign (the \<open>0xd0\<close> case beside it does). So
  \<open>decode (encode (-129))\<close> is 65407 on every platform.
\<close>

theorem decode_encode_int16_loses_sign:
  "decode E (encode E (VNum (JInt (- 129)))) = Inr (VNum (JInt 65407))"
  by (simp only: encode_minus_129 decode_d1_ff_7f)

section \<open>The handle suffix\<close>

lemma or_add_int: "0 \<le> d \<Longrightarrow> d < 2 ^ n \<Longrightarrow> (d::int) OR push_bit n x = d + push_bit n x"
  by (metis concat_bit_eq concat_bit_def take_bit_int_eq_self)

lemma or4_int:
  fixes A B C D :: int
  assumes "0 \<le> A" "A < 256" "0 \<le> B" "B < 256" "0 \<le> C" "C < 256" "0 \<le> D" "D < 256"
  shows "((push_bit 24 A OR push_bit 16 B) OR push_bit 8 C) OR D
         = A * 2 ^ 24 + B * 2 ^ 16 + C * 2 ^ 8 + D"
proof -
  have "((push_bit 24 A OR push_bit 16 B) OR push_bit 8 C) OR D
      = D OR push_bit 8 (C OR push_bit 8 (B OR push_bit 8 A))"
    by (simp add: push_bit_or push_bit_push_bit ac_simps)
  also have "\<dots> = D + push_bit 8 (C + push_bit 8 (B + push_bit 8 A))"
    using assms by (simp add: or_add_int)
  also have "\<dots> = A * 2 ^ 24 + B * 2 ^ 16 + C * 2 ^ 8 + D"
    by (simp add: push_bit_eq_mult)
  finally show ?thesis .
qed

lemma sint32_of_int:
  assumes "0 \<le> u" "u < 2 ^ 32"
  shows "sint (word_of_int u :: 32 word) = (if u \<ge> 2 ^ 31 then u - 2 ^ 32 else u)"
proof -
  have "uint (word_of_int u :: 32 word) = u"
    using assms by (simp add: uint_word_of_int take_bit_int_eq_self)
  hence "sint (word_of_int u :: 32 word) = signed_take_bit 31 u"
    by (simp add: sint_uint)
  also have "\<dots> = (u + 2 ^ 31) mod 2 ^ 32 - 2 ^ 31"
    by (simp add: signed_take_bit_eq_take_bit_shift take_bit_eq_mod)
  also have "\<dots> = (if u \<ge> 2 ^ 31 then u - 2 ^ 32 else u)"
  proof (cases "u \<ge> 2 ^ 31")
    case True
    hence "(u + 2 ^ 31) mod 2 ^ 32 = u + 2 ^ 31 - 2 ^ 32"
      using assms by (simp add: mod_pos_geq)
    thus ?thesis using True by simp
  next
    case False
    hence "(u + 2 ^ 31) mod 2 ^ 32 = u + 2 ^ 31"
      using assms by simp
    thus ?thesis using False by simp
  qed
  finally show ?thesis .
qed

lemma byteAt_bounds: "0 \<le> byteAt b i" "byteAt b i < 256"
  using uint_bounded[of "b ! i"] by (simp_all add: byteAt_def)

lemma bytes_joined_signed:
  "bor (bor (bor (shl (byteAt h 0) 24) (shl (byteAt h 1) 16)) (shl (byteAt h 2) 8)) (byteAt h 3)
   = signedBE32 h"
proof -
  let ?u = "byteAt h 0 * 2 ^ 24 + byteAt h 1 * 2 ^ 16 + byteAt h 2 * 2 ^ 8 + byteAt h 3"
  have "bor (bor (bor (shl (byteAt h 0) 24) (shl (byteAt h 1) 16)) (shl (byteAt h 2) 8)) (byteAt h 3)
      = sint (word_of_int (((push_bit 24 (byteAt h 0) OR push_bit 16 (byteAt h 1))
                            OR push_bit 8 (byteAt h 2)) OR byteAt h 3) :: 32 word)"
    by (simp add: bor_def shl_def toInt32_def word_wi_log_defs push_bit_of_int)
  also have "\<dots> = sint (word_of_int ?u :: 32 word)"
    by (simp add: or4_int byteAt_bounds)
  also have "\<dots> = (if ?u \<ge> 2 ^ 31 then ?u - 2 ^ 32 else ?u)"
  proof (rule sint32_of_int)
    show "0 \<le> ?u" using byteAt_bounds(1)[of h] by simp
    show "?u < 2 ^ 32"
      using byteAt_bounds(2)[of h 0] byteAt_bounds(2)[of h 1] byteAt_bounds(2)[of h 2]
            byteAt_bounds(2)[of h 3] by simp
  qed
  finally show ?thesis by (simp add: signedBE32_def Let_def)
qed

lemma abs_jsRem: "m > 0 \<Longrightarrow> \<bar>jsRem a m\<bar> = \<bar>a\<bar> mod m"
  using jsRem_def by fastforce

lemma suffixOfHash_signed:
  "suffixOfHash h n = padStart n 0x30 (toStringNat (nat (\<bar>signedBE32 h\<bar> mod 10 ^ n)))"
  unfolding suffixOfHash_def Let_def bytes_joined_signed by (simp add: abs_jsRem)

text \<open>
  C5, as the code has it: the suffix is the zero-padded decimal of
  \<open>|s| mod 10 ^ n\<close>, where \<open>s\<close> is the first four bytes of the SHA-256 digest of the key
  bytes read as a signed big-endian 32-bit integer (\<open>Math.abs\<close> of the remainder of the
  \<open>|\<close>-joined bytes); a key of odd length is refused first.
\<close>

theorem computeSuffix_signed:
  "computeSuffix E pk n =
     (case fromHex pk of
        Inl e \<Rightarrow> Inl e
      | Inr input \<Rightarrow>
          Inr (padStart n 0x30 (toStringNat (nat (\<bar>signedBE32 (sha256 E input)\<bar> mod 10 ^ n)))))"
  by (simp add: computeSuffix_def suffixOfHash_signed split: sum.splits)

lemma signedBE32_digest_04: "signedBE32 digest_of_key_04 = - 1622165873"
  by (simp add: signedBE32_def digest_of_key_04_def byteAt_def)

lemma suffixOfHash_digest_04: "suffixOfHash digest_of_key_04 4 = ascii ''5873''"
  unfolding suffixOfHash_signed signedBE32_digest_04
  by (simp add: padStart_def toStringNat.simps ascii_def)

lemma spec_suffix_digest_04: "spec_suffix digest_of_key_04 4 = ascii ''1423''"
  by (simp add: spec_suffix_def digest_of_key_04_def byteAt_def padStart_def toStringNat.simps
      ascii_def)

text \<open>
  C5 as stated fails at the key \<open>04 04 ... 04\<close>: the code answers \<open>5873\<close>, the
  unsigned reading gives \<open>1423\<close>.
\<close>

theorem suffix_unsigned_counterexample:
  "suffixOfHash digest_of_key_04 4 \<noteq> spec_suffix digest_of_key_04 4"
  unfolding suffixOfHash_digest_04 spec_suffix_digest_04 by (simp add: ascii_def)

section \<open>Username claims\<close>

lemma foldl_earliest:
  "let r = foldl (\<lambda>earliest current.
                    if createdAt current < createdAt earliest then current else earliest) e xs
   in r \<in> set (e # xs) \<and> (\<forall>c \<in> set (e # xs). createdAt r \<le> createdAt c)
      \<and> r = hd (filter (\<lambda>c. createdAt c = createdAt r) (e # xs))"
proof (induction xs arbitrary: e)
  case Nil
  show ?case by simp
next
  case (Cons x xs)
  show ?case
  proof (cases "createdAt x < createdAt e")
    case True
    with Cons.IH[of x] show ?thesis by (auto simp: Let_def)
  next
    case False
    with Cons.IH[of e] show ?thesis by (auto simp: Let_def)
  qed
qed

lemma reduce_earliest:
  assumes "ok \<noteq> []"
  defines "r \<equiv> foldl (\<lambda>earliest current.
                        if createdAt current < createdAt earliest then current else earliest)
                   (hd ok) (tl ok)"
  shows "r = hd (filter (\<lambda>c. createdAt c = Min (createdAt ` set ok)) ok)"
proof -
  have ok: "hd ok # tl ok = ok" using assms(1) by simp
  have props: "r \<in> set ok" "\<forall>c \<in> set ok. createdAt r \<le> createdAt c"
       "r = hd (filter (\<lambda>c. createdAt c = createdAt r) ok)"
    using foldl_earliest[of "hd ok" "tl ok"] unfolding r_def Let_def ok by blast+
  have "Min (createdAt ` set ok) = createdAt r"
    using props(1,2) by (intro Min_eqI) auto
  thus ?thesis using props(3) by simp
qed

text \<open>
  C6, as the code has it: \<open>resolveWinner\<close> is \<open>null\<close> when no claim is both non-revoked
  and validly signed, and otherwise the first claim, in the order of the input, among the
  non-revoked validly signed claims with the smallest \<open>createdAt\<close>. (A tie is broken by
  position in the input, not by the signature.)
\<close>

theorem resolveWinner_first_earliest:
  "resolveWinner E claims =
     (case filter (\<lambda>c. \<not> revoked c \<and> claimIsValid E c) claims of
        [] \<Rightarrow> None
      | c # cs \<Rightarrow> Some (hd (filter (\<lambda>x. createdAt x = Min (createdAt ` set (c # cs))) (c # cs))))"
proof -
  let ?ok = "filter (\<lambda>c. \<not> revoked c \<and> claimIsValid E c) claims"
  have split: "filter (claimIsValid E) (filter (\<lambda>c. \<not> revoked c) claims) = ?ok"
    by (simp add: conj_commute)
  show ?thesis
  proof (cases ?ok)
    case Nil
    hence "filter (claimIsValid E) (filter (\<lambda>c. \<not> revoked c) claims) = []"
      using split by simp
    thus ?thesis using Nil by (simp add: resolveWinner_def Let_def)
  next
    case (Cons c cs)
    hence ne: "?ok \<noteq> []" by simp
    have "claims \<noteq> []" using ne by auto
    moreover have "filter (\<lambda>c. \<not> revoked c) claims \<noteq> []"
      using ne by (auto simp: filter_empty_conv)
    ultimately have "claims \<noteq> []" "filter (\<lambda>c. \<not> revoked c) claims \<noteq> []"
      by simp_all
    hence "resolveWinner E claims =
        Some (foldl (\<lambda>earliest current.
                        if createdAt current < createdAt earliest then current else earliest)
                (hd ?ok) (tl ?ok))"
      using ne split by (simp add: resolveWinner_def Let_def)
    also have "\<dots> = Some (hd (filter (\<lambda>x. createdAt x = Min (createdAt ` set ?ok)) ?ok))"
      using reduce_earliest[OF ne] by simp
    finally show ?thesis using Cons by simp
  qed
qed

lemma claimA_eq:
  "claimA = \<lparr>username = ascii ''carol'', pubKey = ascii ''aa'', createdAt = 10, revoked = False,
             signature = ascii ''aa'' @ testRender (claimPayload
               \<lparr>username = ascii ''carol'', pubKey = ascii ''aa'', createdAt = 10, revoked = False,
                signature = []\<rparr>)\<rparr>"
  by (simp add: claimA_def createClaim_def testEnv_def testSign_def canonicalize_def Let_def)

lemma claimB_eq:
  "claimB = \<lparr>username = ascii ''carol'', pubKey = ascii ''bb'', createdAt = 10, revoked = False,
             signature = ascii ''bb'' @ testRender (claimPayload
               \<lparr>username = ascii ''carol'', pubKey = ascii ''bb'', createdAt = 10, revoked = False,
                signature = []\<rparr>)\<rparr>"
  by (simp add: claimB_def createClaim_def testEnv_def testSign_def canonicalize_def Let_def)

lemma claimA_valid: "claimIsValid testEnv claimA \<and> \<not> revoked claimA \<and> createdAt claimA = 10"
  by (simp add: claimA_eq claimIsValid_def verify_def testEnv_def testVerify_def canonicalize_def
      claimPayload_def)

lemma claimB_valid: "claimIsValid testEnv claimB \<and> \<not> revoked claimB \<and> createdAt claimB = 10"
  by (simp add: claimB_eq claimIsValid_def verify_def testEnv_def testVerify_def canonicalize_def
      claimPayload_def)

lemma claimA_neq_claimB: "claimA \<noteq> claimB"
  by (simp add: claimA_eq claimB_eq ascii_def)

text \<open>
  C6 as stated fails: two valid claims made in the same millisecond are resolved to
  whichever comes first in the input, so the result depends on the order of the input.
\<close>

theorem resolveWinner_order_counterexample:
  "resolveWinner testEnv [claimA, claimB] = Some claimA
   \<and> resolveWinner testEnv [claimB, claimA] = Some claimB
   \<and> claimA \<noteq> claimB"
  using claimA_valid claimB_valid claimA_neq_claimB by (simp add: resolveWinner_def Let_def)

section \<open>The trie node\<close>

lemma sint_small: "0 \<le> a \<Longrightarrow> a < 2 ^ 31 \<Longrightarrow> sint (word_of_int a :: 32 word) = a"
  using sint32_of_int[of a] by simp

lemma int_and_255: "(a::int) AND 255 = a mod 256"
proof -
  have "a AND mask 8 = take_bit 8 a" by (simp add: take_bit_eq_mask)
  thus ?thesis by (simp add: take_bit_eq_mod mask_eq_exp_minus_1)
qed

lemma band_ff: "band a 0xff = a mod 256"
proof -
  have "band a 0xff = sint (word_of_int (a AND 255) :: 32 word)"
    by (simp add: band_def toInt32_def word_wi_log_defs[symmetric])
  also have "\<dots> = a mod 256"
    unfolding int_and_255 by (rule sint_small) simp_all
  finally show ?thesis .
qed

lemma sar_nonneg: "0 \<le> a \<Longrightarrow> a < 2 ^ 31 \<Longrightarrow> sar a k = a div 2 ^ k"
  by (simp add: sar_def toInt32_def sint_signed_drop_bit_eq sint_small drop_bit_eq_div)

lemma shl_small: "0 \<le> a \<Longrightarrow> a * 2 ^ k < 2 ^ 31 \<Longrightarrow> shl a k = a * 2 ^ k"
proof -
  assume a: "0 \<le> a" "a * 2 ^ k < 2 ^ 31"
  have "shl a k = sint (word_of_int (push_bit k a) :: 32 word)"
    by (simp only: shl_def toInt32_def push_bit_of_int)
  also have "\<dots> = push_bit k a"
    using a by (intro sint_small) (simp_all add: push_bit_eq_mult)
  finally show ?thesis by (simp add: push_bit_eq_mult)
qed

lemma bor_disjoint:
  assumes "0 \<le> lo" "lo < 2 ^ k" "0 \<le> hi" "hi * 2 ^ k + lo < 2 ^ 31"
  shows "bor (hi * 2 ^ k) lo = hi * 2 ^ k + lo"
proof -
  have "bor (hi * 2 ^ k) lo = sint (word_of_int (hi * 2 ^ k OR lo) :: 32 word)"
    by (simp only: bor_def toInt32_def word_wi_log_defs)
  also have "hi * 2 ^ k OR lo = lo + push_bit k hi"
    using or_add_int[OF assms(1,2), of hi] by (simp add: push_bit_eq_mult or.commute)
  also have "sint (word_of_int (lo + push_bit k hi) :: 32 word) = lo + push_bit k hi"
    using assms by (intro sint_small) (simp_all add: push_bit_eq_mult)
  finally show ?thesis by (simp add: push_bit_eq_mult)
qed

lemma toUint8_uint: "0 \<le> a \<Longrightarrow> a < 256 \<Longrightarrow> uint (toUint8 a) = a"
  by (simp add: toUint8_def uint_word_of_int take_bit_int_eq_self)

lemma rd16_be:
  assumes "0 \<le> n" "n < 65536"
  shows "rd16 (toUint8 (band (sar n 8) 0xff) # toUint8 (band n 0xff) # rest) = n"
proof -
  have s: "sar n 8 = n div 256" using assms by (simp add: sar_nonneg)
  have hi: "band (sar n 8) 0xff = n div 256" using assms by (simp add: s band_ff)
  have lo: "band n 0xff = n mod 256" by (simp add: band_ff)
  have b0: "byteAt (toUint8 (n div 256) # toUint8 (n mod 256) # rest) 0 = n div 256"
    using assms by (simp add: byteAt_def toUint8_uint)
  have b1: "byteAt (toUint8 (n div 256) # toUint8 (n mod 256) # rest) 1 = n mod 256"
    by (simp add: byteAt_def toUint8_uint)
  have "shl (n div 256) 8 = (n div 256) * 2 ^ 8" using assms by (intro shl_small) simp_all
  moreover have "bor ((n div 256) * 2 ^ 8) (n mod 256) = (n div 256) * 2 ^ 8 + n mod 256"
    using assms by (intro bor_disjoint) simp_all
  ultimately show ?thesis unfolding rd16_def hi lo b0 b1 by simp
qed

lemma lowKey_id: "c < 256 \<Longrightarrow> (ucast (ucast (c :: 16 word) :: 8 word) :: 16 word) = c"
proof -
  assume c: "c < 256"
  have "(ucast (ucast c :: 8 word) :: 16 word) = take_bit 8 c"
    by (simp add: unsigned_ucast_eq)
  also have "\<dots> = c"
    using less_mask_eq[of c 8] c by (simp add: take_bit_eq_mask)
  finally show ?thesis .
qed

lemma bufPut_next: "bufPut (pre @ replicate (Suc k) 0) (length pre) x = (pre @ [x]) @ replicate k 0"
  by (simp add: bufPut_def list_update_append)

lemma bufSet_next:
  "length src = m \<Longrightarrow> bufSet (pre @ replicate (m + k) 0) src (length pre) = Inr ((pre @ src) @ replicate k 0)"
  by (simp add: bufSet_def)

lemma writeChildren_next:
  assumes "\<forall>c\<in>set keys. length (fromBase64 E (the (map_of ch c))) = 32"
  shows "writeChildren E ch keys (pre @ replicate (33 * length keys + k) 0) (length pre)
         = Inr ((pre @ childrenImage E ch keys) @ replicate k 0)"
  using assms
proof (induction keys arbitrary: pre)
  case Nil
  show ?case by (simp add: childrenImage_def)
next
  case (Cons c cs)
  let ?h = "fromBase64 E (the (map_of ch c))"
  have len: "length ?h = 32" using Cons.prems by simp
  have r: "replicate (33 * length (c # cs) + k) (0::byte) = replicate (Suc (32 + (33 * length cs + k))) 0"
    by simp
  have p1: "bufPut (pre @ replicate (33 * length (c # cs) + k) 0) (length pre) (ucast c)
          = (pre @ [ucast c]) @ replicate (32 + (33 * length cs + k)) 0"
    unfolding r by (rule bufPut_next)
  have p2: "bufSet ((pre @ [ucast c]) @ replicate (32 + (33 * length cs + k)) 0) ?h (length pre + 1)
          = Inr (((pre @ [ucast c]) @ ?h) @ replicate (33 * length cs + k) 0)"
    using bufSet_next[OF len, of "pre @ [ucast c]" "33 * length cs + k"] by simp
  have ih: "writeChildren E ch cs (((pre @ [ucast c]) @ ?h) @ replicate (33 * length cs + k) 0)
              (length ((pre @ [ucast c]) @ ?h))
            = Inr ((((pre @ [ucast c]) @ ?h) @ childrenImage E ch cs) @ replicate k 0)"
    using Cons.IH[of "(pre @ [ucast c]) @ ?h"] Cons.prems by simp
  have l: "length ((pre @ [ucast c]) @ ?h) = length pre + 33" using len by simp
  have "writeChildren E ch (c # cs) (pre @ replicate (33 * length (c # cs) + k) 0) (length pre)
      = writeChildren E ch cs (((pre @ [ucast c]) @ ?h) @ replicate (33 * length cs + k) 0)
          (length pre + 33)"
    by (simp only: writeChildren.simps Let_def p1 p2 sum.case)
  also have "\<dots> = Inr ((((pre @ [ucast c]) @ ?h) @ childrenImage E ch cs) @ replicate k 0)"
    using ih unfolding l .
  also have "\<dots> = Inr ((pre @ childrenImage E ch (c # cs)) @ replicate k 0)"
    by (simp add: childrenImage_def)
  finally show ?case .
qed

lemma readChildren_image:
  assumes "\<forall>c\<in>set keys. length (fromBase64 E (the (map_of ch c))) = 32"
  shows "readChildren E (length keys) (childrenImage E ch keys @ rest) acc
         = Inr (foldl (\<lambda>a c. AList.update (lowKey c) (toBase64 E (fromBase64 E (the (map_of ch c)))) a) acc keys)"
  using assms
proof (induction keys arbitrary: acc)
  case Nil
  show ?case by (simp add: childrenImage_def)
next
  case (Cons c cs)
  let ?h = "fromBase64 E (the (map_of ch c))"
  have len: "length ?h = 32" using Cons.prems by simp
  have img: "childrenImage E ch (c # cs) @ rest = ucast c # (?h @ (childrenImage E ch cs @ rest))"
    by (simp add: childrenImage_def)
  show ?case
    unfolding img using Cons.IH Cons.prems len
    by (simp add: lowKey_def)
qed

lemma serialize_image:
  assumes hashes: "\<forall>c\<in>set (map fst (children n)). length (fromBase64 E (the (map_of (children n) c))) = 32"
  shows "serialize E n = Inr (nodeImage E n)"
proof -
  define keys where "keys = sort (map fst (children n))"
  define N where "N = length keys"
  define f where "f = toUint8 (bor (if node_value n \<noteq> None then 1 else 0)
                       (if N \<ge> 127 then shl 127 1 else shl (int N) 1))"
  define cnt where "cnt = (if N \<ge> 127 then [toUint8 (band (sar (int N) 8) 0xff), toUint8 (band (int N) 0xff)] else [])"
  define vb where "vb = (case node_value n of None \<Rightarrow> [] | Some v \<Rightarrow> utf8_encode E v)"
  define R where "R = (if node_value n \<noteq> None then 2 + length vb else 0) + 33 * N"
  define size where "size = 1 + (if N \<ge> 127 then 2 else 0) + (if node_value n \<noteq> None then 2 + length vb else 0) + N * 33"
  define buffer0 where "buffer0 = bufPut (replicate size 0) 0 f"
  define buffer1 where "buffer1 = (if N \<ge> 127
                    then bufPut (bufPut buffer0 1 (toUint8 (band (sar (int N) 8) 0xff)))
                                2 (toUint8 (band (int N) 0xff))
                    else buffer0)"
  define offset1 :: nat where "offset1 = (if N \<ge> 127 then 3 else 1)"
  have hk: "\<forall>c\<in>set keys. length (fromBase64 E (the (map_of (children n) c))) = 32"
    using hashes by (simp add: keys_def)
  have b0: "buffer0 = [f] @ replicate (size - 1) 0"
  proof -
    have "replicate size (0::byte) = [] @ replicate (Suc (size - 1)) 0" by (simp add: size_def)
    thus ?thesis unfolding buffer0_def using bufPut_next[of "[]" "size - 1" f] by simp
  qed
  have b1: "buffer1 = ([f] @ cnt) @ replicate R 0 \<and> offset1 = length ([f] @ cnt)"
  proof (cases "N \<ge> 127")
    case True
    have sz: "size - 1 = Suc (Suc R)" using True by (simp add: size_def R_def)
    have "bufPut (bufPut buffer0 1 (toUint8 (band (sar (int N) 8) 0xff))) 2 (toUint8 (band (int N) 0xff))
          = ([f, toUint8 (band (sar (int N) 8) 0xff)] @ [toUint8 (band (int N) 0xff)]) @ replicate R 0"
      unfolding b0 sz by (simp add: bufPut_def numeral_2_eq_2)
    thus ?thesis using True by (simp add: buffer1_def cnt_def offset1_def)
  next
    case False
    have sz: "size - 1 = R" using False by (simp add: size_def R_def)
    show ?thesis using False sz by (simp add: buffer1_def cnt_def offset1_def b0)
  qed
  have ser: "serialize E n =
      (if node_value n \<noteq> None then
          (case bufSet (bufPut (bufPut buffer1 offset1 (toUint8 (band (sar (int (length vb)) 8) 0xff)))
                               (offset1 + 1) (toUint8 (band (int (length vb)) 0xff)))
                       vb (offset1 + 2) of
             Inl e \<Rightarrow> Inl e
           | Inr buffer2 \<Rightarrow>
               writeChildren E (children n) keys buffer2 (offset1 + 2 + length vb))
        else writeChildren E (children n) keys buffer1 offset1)"
    unfolding serialize_def Let_def keys_def[symmetric] N_def[symmetric] vb_def[symmetric]
      f_def[symmetric] size_def[symmetric] buffer0_def[symmetric] buffer1_def[symmetric]
      offset1_def[symmetric] ..
  show ?thesis
  proof (cases "node_value n")
    case None
    have R0: "R = 33 * length keys + 0" using None by (simp add: R_def N_def)
    have "writeChildren E (children n) keys (([f] @ cnt) @ replicate R 0) (length ([f] @ cnt))
          = Inr ((([f] @ cnt) @ childrenImage E (children n) keys) @ replicate 0 0)"
      unfolding R0 by (rule writeChildren_next[OF hk])
    thus ?thesis using None b1
      by (simp add: ser nodeImage_def Let_def keys_def[symmetric] N_def[symmetric] f_def cnt_def)
  next
    case (Some v)
    let ?pre = "[f] @ cnt"
    let ?l1 = "toUint8 (band (sar (int (length vb)) 8) 0xff)"
    let ?l2 = "toUint8 (band (int (length vb)) 0xff)"
    have Rv: "R = Suc (Suc (length vb + (33 * length keys + 0)))" using Some by (simp add: R_def N_def)
    have s1: "bufPut (?pre @ replicate R 0) (length ?pre) ?l1
              = (?pre @ [?l1]) @ replicate (Suc (length vb + (33 * length keys + 0))) 0"
      unfolding Rv by (rule bufPut_next)
    have s2: "bufPut ((?pre @ [?l1]) @ replicate (Suc (length vb + (33 * length keys + 0))) 0)
                 (length (?pre @ [?l1])) ?l2
              = ((?pre @ [?l1]) @ [?l2]) @ replicate (length vb + (33 * length keys + 0)) 0"
      by (rule bufPut_next)
    have s3: "bufSet (((?pre @ [?l1]) @ [?l2]) @ replicate (length vb + (33 * length keys + 0)) 0) vb
                 (length ((?pre @ [?l1]) @ [?l2]))
              = Inr ((((?pre @ [?l1]) @ [?l2]) @ vb) @ replicate (33 * length keys + 0) 0)"
      by (rule bufSet_next) simp
    have s4: "writeChildren E (children n) keys
                 (((((?pre @ [?l1]) @ [?l2]) @ vb)) @ replicate (33 * length keys + 0) 0)
                 (length ((((?pre @ [?l1]) @ [?l2]) @ vb)))
              = Inr ((((((?pre @ [?l1]) @ [?l2]) @ vb)) @ childrenImage E (children n) keys) @ replicate 0 0)"
      by (rule writeChildren_next[OF hk])
    have o1: "offset1 + 1 = length (?pre @ [?l1])" "offset1 + 2 = length ((?pre @ [?l1]) @ [?l2])"
         "offset1 + 2 + length vb = length ((((?pre @ [?l1]) @ [?l2]) @ vb))"
      using b1 by simp_all
    have b1': "buffer1 = ?pre @ replicate R 0" "offset1 = length ?pre" using b1 by simp_all
    have "serialize E n = Inr ((((((?pre @ [?l1]) @ [?l2]) @ vb)) @ childrenImage E (children n) keys) @ replicate 0 0)"
      unfolding ser o1 unfolding b1'(1) unfolding b1'(2) s1 s2 s3 using Some s4 by simp
    thus ?thesis using Some
      by (simp add: nodeImage_def Let_def keys_def[symmetric] N_def[symmetric] f_def cnt_def vb_def)
  qed
qed

lemma bor_commute: "bor a b = bor b a"
  by (simp add: bor_def or.commute)

lemma int_and_127: "(a::int) AND 127 = a mod 128"
proof -
  have "a AND mask 7 = take_bit 7 a" by (simp add: take_bit_eq_mask)
  thus ?thesis by (simp add: take_bit_eq_mod mask_eq_exp_minus_1)
qed

lemma flags_decode:
  fixes hv :: bool and k :: nat
  assumes k: "k \<le> 127"
  defines "f \<equiv> toUint8 (bor (if hv then 1 else 0) (shl (int k) 1))"
  shows "(f AND 0x01 \<noteq> 0) = hv" and "unat (drop_bit 1 f AND 0x7f) = k"
proof -
  let ?m = "int k * 2 ^ 1 + (if hv then 1 else 0)"
  have sh: "shl (int k) 1 = int k * 2 ^ 1" using k by (intro shl_small) simp_all
  have "bor (if hv then 1 else 0) (shl (int k) 1) = bor (int k * 2 ^ 1) (if hv then 1 else 0)"
    unfolding sh by (rule bor_commute)
  also have "\<dots> = ?m" using k by (intro bor_disjoint) simp_all
  finally have eq: "bor (if hv then 1 else 0) (shl (int k) 1) = ?m" .
  have f: "f = toUint8 ?m" by (simp only: f_def eq)
  have m: "0 \<le> ?m" "?m < 256" using k by simp_all
  have u: "uint f = ?m" unfolding f by (rule toUint8_uint[OF m])
  have "uint (f AND 0x01) = uint f AND 1" by (simp add: uint_and)
  also have "\<dots> = ?m mod 2" unfolding u by (simp add: and_one_eq mod_2_eq_odd)
  also have "\<dots> = (if hv then 1 else 0)" by simp
  finally have "uint (f AND 0x01) = (if hv then 1 else 0)" .
  moreover have "(f AND 0x01 = 0) = (uint (f AND 0x01) = 0)" by (simp add: uint_0_iff)
  ultimately show "(f AND 0x01 \<noteq> 0) = hv" by (cases hv) simp_all
  have "uint (drop_bit 1 f AND 0x7f) = uint (drop_bit 1 f) AND 127" by (simp add: uint_and)
  also have "uint (drop_bit 1 f) = drop_bit 1 (uint f)"
    using m by (simp add: unsigned_drop_bit_eq u take_bit_int_eq_self)
  also have "drop_bit 1 (uint f) = int k" unfolding u by (simp add: drop_bit_eq_div)
  also have "int k AND 127 = int k" using k by (simp add: int_and_127)
  finally have "uint (drop_bit 1 f AND 0x7f) = int k" .
  thus "unat (drop_bit 1 f AND 0x7f) = k" by (simp add: unat_eq_nat_uint)
qed

lemma deserialize_image:
  assumes hashes: "\<forall>c\<in>set (map fst (children n)). length (fromBase64 E (the (map_of (children n) c))) = 32"
      and count: "length (children n) < 65536"
      and vlen: "\<And>v. node_value n = Some v \<Longrightarrow> length (utf8_encode E v) < 65536"
  shows "deserialize E (nodeImage E n) =
           Inr \<lparr>node_value = map_option (\<lambda>v. utf8_decode E (utf8_encode E v)) (node_value n),
                children = rebuiltChildren E (children n), hasValueFlag = False\<rparr>"
proof -
  define keys where "keys = sort (map fst (children n))"
  define N where "N = length keys"
  define k where "k = (if N \<ge> 127 then 127 else N)"
  define hv where "hv = (node_value n \<noteq> None)"
  define f where "f = toUint8 (bor (if hv then 1 else 0) (shl (int k) 1))"
  define cnt where "cnt = (if N \<ge> 127 then [toUint8 (band (sar (int N) 8) 0xff), toUint8 (band (int N) 0xff)] else [])"
  define vpart where "vpart = (case node_value n of
             None \<Rightarrow> []
           | Some v \<Rightarrow> [toUint8 (band (sar (int (length (utf8_encode E v))) 8) 0xff),
                        toUint8 (band (int (length (utf8_encode E v))) 0xff)] @ utf8_encode E v)"
  define img where "img = childrenImage E (children n) keys"
  have N: "N = length (children n)" by (simp add: N_def keys_def)
  have hk: "\<forall>c\<in>set keys. length (fromBase64 E (the (map_of (children n) c))) = 32"
    using hashes by (simp add: keys_def)
  have image: "nodeImage E n = f # cnt @ vpart @ img"
    by (simp add: nodeImage_def Let_def keys_def[symmetric] N_def[symmetric] f_def k_def hv_def
        cnt_def vpart_def img_def)
  have kle: "k \<le> 127" by (simp add: k_def)
  have fl: "(f AND 0x01 \<noteq> 0) = hv" "unat (drop_bit 1 f AND 0x7f) = k"
    using flags_decode[OF kle, of hv] by (simp_all add: f_def)
  have rc: "readChildren E N img [] = Inr (rebuiltChildren E (children n))"
    using readChildren_image[OF hk, of "[]" "[]"]
    by (simp add: N_def img_def rebuiltChildren_def keys_def)
  have tail: "readValueAndChildren E hv N (vpart @ img)
            = Inr \<lparr>node_value = map_option (\<lambda>v. utf8_decode E (utf8_encode E v)) (node_value n),
                children = rebuiltChildren E (children n), hasValueFlag = False\<rparr>"
  proof (cases "node_value n")
    case None
    thus ?thesis by (simp add: readValueAndChildren_def hv_def vpart_def rc)
  next
    case (Some v)
    let ?vb = "utf8_encode E v"
    have V: "0 \<le> int (length ?vb)" "int (length ?vb) < 65536" using vlen[OF Some] by simp_all
    have vp: "vpart @ img = toUint8 (band (sar (int (length ?vb)) 8) 0xff)
                 # toUint8 (band (int (length ?vb)) 0xff) # (?vb @ img)"
      using Some by (simp add: vpart_def)
    have rd: "rd16 (vpart @ img) = int (length ?vb)"
      unfolding vp by (rule rd16_be[OF V])
    have "readValueAndChildren E True N (vpart @ img) =
            (case readChildren E N (drop (length ?vb) (drop 2 (vpart @ img))) [] of
                        Inl e \<Rightarrow> Inl e
                      | Inr ch \<Rightarrow>
                          Inr \<lparr>node_value = Some (utf8_decode E (take (length ?vb) (drop 2 (vpart @ img)))),
                               children = ch, hasValueFlag = False\<rparr>)"
      unfolding readValueAndChildren_def Let_def rd nat_int by (simp add: vp)
    also have "drop 2 (vpart @ img) = ?vb @ img" by (simp add: vp)
    finally show ?thesis using Some by (simp add: hv_def rc)
  qed
  show ?thesis
  proof (cases "N \<ge> 127")
    case True
    have k127: "k = 127" using True by (simp add: k_def)
    have Nb: "0 \<le> int N" "int N < 65536" using count N by simp_all
    have c: "cnt @ vpart @ img = toUint8 (band (sar (int N) 8) 0xff) # toUint8 (band (int N) 0xff) # (vpart @ img)"
      using True by (simp add: cnt_def)
    have rd: "rd16 (cnt @ vpart @ img) = int N" unfolding c by (rule rd16_be[OF Nb])
    have "deserialize E (f # (cnt @ vpart @ img)) =
            Inr \<lparr>node_value = map_option (\<lambda>v. utf8_decode E (utf8_encode E v)) (node_value n),
                 children = rebuiltChildren E (children n), hasValueFlag = False\<rparr>"
      unfolding deserialize_def list.case Let_def fl k127 rd
      using tail by (simp add: c)
    thus ?thesis unfolding image by simp
  next
    case False
    have kN: "k = N" "N \<noteq> 127" using False by (simp_all add: k_def)
    have c: "cnt = []" using False by (simp add: cnt_def)
    have "deserialize E (f # (cnt @ vpart @ img)) =
            Inr \<lparr>node_value = map_option (\<lambda>v. utf8_decode E (utf8_encode E v)) (node_value n),
                 children = rebuiltChildren E (children n), hasValueFlag = False\<rparr>"
      unfolding deserialize_def list.case Let_def fl kN(1) c
      using tail kN(2) by simp
    thus ?thesis unfolding image by simp
  qed
qed

lemma map_of_foldl_update:
  "map_of (foldl (\<lambda>a c. AList.update (p c) (g c) a) acc ks) x
   = (case filter (\<lambda>c. p c = x) ks of [] \<Rightarrow> map_of acc x | cs \<Rightarrow> Some (g (last cs)))"
proof (induction ks arbitrary: acc)
  case Nil
  show ?case by simp
next
  case (Cons k ks)
  show ?case
    by (simp add: Cons.IH update_conv' split: list.splits)
qed

lemma distinct_foldl_update:
  "distinct (map fst acc) \<Longrightarrow> distinct (map fst (foldl (\<lambda>a c. AList.update (p c) (g c) a) acc ks))"
  by (induction ks arbitrary: acc) (simp_all add: distinct_update)

lemma lowKey_lt: "lowKey c < 256"
proof -
  have "uint (ucast (ucast c :: byte) :: jschar) = uint (ucast c :: byte)"
    by (simp add: uint_up_ucast is_up)
  moreover have "uint (ucast c :: byte) < 256" using uint_bounded[of "ucast c :: byte"] by simp
  ultimately show ?thesis by (simp add: lowKey_def word_less_def)
qed

lemma value_of_key:
  assumes "distinct (map fst ch)" "(c, h) \<in> set ch"
  shows "the (map_of ch c) = h"
  using assms by simp

lemma keys_foldl_update:
  "set (map fst (foldl (\<lambda>a c. AList.update (p c) (g c) a) acc ks)) = set (map fst acc) \<union> p ` set ks"
proof (induction ks arbitrary: acc)
  case Nil
  show ?case by simp
next
  case (Cons k ks)
  show ?case unfolding foldl_Cons Cons.IH by (auto simp: update_keys)
qed

lemma rebuilt_keys:
  "fst ` set (rebuiltChildren E ch) = lowKey ` fst ` set ch"
  using keys_foldl_update[of lowKey _ "[]" "sort (map fst ch)"]
  by (simp add: rebuiltChildren_def)

lemma filter_eq_distinct: "distinct ks \<Longrightarrow> x \<in> set ks \<Longrightarrow> filter (\<lambda>c. c = x) ks = [x]"
  by (induction ks) (auto simp: filter_empty_conv)

lemma rebuilt_latin1:
  assumes d: "distinct (map fst ch)"
      and h: "\<forall>kv \<in> set ch. toBase64 E (fromBase64 E (snd kv)) = snd kv"
      and l: "\<forall>c \<in> set (map fst ch). c < 256"
  shows "map_of (rebuiltChildren E ch) = map_of ch"
proof
  fix x
  let ?ks = "sort (map fst ch)"
  have dk: "distinct ?ks" using d by simp
  have low: "\<And>c. c \<in> set ?ks \<Longrightarrow> lowKey c = c"
    using l by (auto simp: lowKey_def intro: lowKey_id)
  have f: "filter (\<lambda>c. lowKey c = x) ?ks = filter (\<lambda>c. c = x) ?ks"
    by (rule filter_cong) (auto simp: low)
  show "map_of (rebuiltChildren E ch) x = map_of ch x"
  proof (cases "x \<in> set ?ks")
    case True
    hence "filter (\<lambda>c. c = x) ?ks = [x]"
      using filter_eq_distinct[OF dk] by simp
    moreover obtain hh where hh: "(x, hh) \<in> set ch" using True by auto
    moreover have "map_of ch x = Some hh" using d hh by simp
    moreover have "toBase64 E (fromBase64 E hh) = hh" using h hh by auto
    ultimately show ?thesis
      unfolding rebuiltChildren_def map_of_foldl_update f by simp
  next
    case False
    hence "filter (\<lambda>c. c = x) ?ks = []" by (auto simp: filter_empty_conv)
    moreover have "map_of ch x = None" using False by (simp add: map_of_eq_None_iff)
    ultimately show ?thesis
      unfolding rebuiltChildren_def map_of_foldl_update f by simp
  qed
qed

lemma wellFormed_hashes:
  assumes "wellFormedNode E n"
  shows "\<forall>c\<in>set (map fst (children n)). length (fromBase64 E (the (map_of (children n) c))) = 32"
proof
  fix c assume "c \<in> set (map fst (children n))"
  then obtain h where h: "(c, h) \<in> set (children n)" by auto
  have "the (map_of (children n) c) = h"
    using assms h by (simp add: wellFormedNode_def)
  thus "length (fromBase64 E (the (map_of (children n) c))) = 32"
    using assms h by (auto simp: wellFormedNode_def)
qed

lemma node_through_storage:
  assumes wf: "wellFormedNode E n" and count: "length (children n) < 65536"
  shows "serialize E n = Inr (nodeImage E n)"
    and "deserialize E (nodeImage E n) =
           Inr \<lparr>node_value = node_value n, children = rebuiltChildren E (children n),
                hasValueFlag = False\<rparr>"
proof -
  show "serialize E n = Inr (nodeImage E n)"
    by (rule serialize_image[OF wellFormed_hashes[OF wf]])
  have v: "map_option (\<lambda>v. utf8_decode E (utf8_encode E v)) (node_value n) = node_value n"
    using wf by (cases "node_value n") (simp_all add: wellFormedNode_def)
  have "\<And>v. node_value n = Some v \<Longrightarrow> length (utf8_encode E v) < 65536"
    using wf by (simp add: wellFormedNode_def)
  from deserialize_image[OF wellFormed_hashes[OF wf] count this]
  show "deserialize E (nodeImage E n) =
           Inr \<lparr>node_value = node_value n, children = rebuiltChildren E (children n),
                hasValueFlag = False\<rparr>"
    unfolding v by simp
qed

lemma latin1_count:
  assumes "distinct (map fst (children n))" "latin1Keys n"
  shows "length (children n) < 65536"
proof -
  have "set (map fst (children n)) \<subseteq> {c. c < (256 :: jschar)}"
    using assms(2) by (auto simp: latin1Keys_def)
  also have "\<dots> = word_of_nat ` {..<256}"
  proof (intro set_eqI iffI)
    fix c :: jschar assume "c \<in> {c. c < 256}"
    hence "unat c < 256" by (simp add: word_less_nat_alt)
    moreover have "c = word_of_nat (unat c)" by simp
    ultimately show "c \<in> word_of_nat ` {..<256}" by blast
  next
    fix c :: jschar assume "c \<in> word_of_nat ` {..<256}"
    then obtain k :: nat where "k < 256" "c = word_of_nat k" by auto
    thus "c \<in> {c. c < 256}" by (simp add: word_less_nat_alt unat_of_nat)
  qed
  finally have "card (set (map fst (children n))) \<le> card (word_of_nat ` {..<256::nat} :: jschar set)"
    by (intro card_mono) auto
  also have "\<dots> \<le> card {..<256::nat}" by (rule card_image_le) simp
  finally have "card (set (map fst (children n))) \<le> 256" by simp
  hence "length (map fst (children n)) \<le> 256"
    using distinct_card[OF assms(1)] by simp
  thus ?thesis by simp
qed

lemma writeChildren_cong:
  "map_of ch1 = map_of ch2 \<Longrightarrow> writeChildren E ch1 ks b off = writeChildren E ch2 ks b off"
  by (induction ks arbitrary: b off) (simp_all add: Let_def split: sum.splits)

lemma sameNode_keys:
  assumes "sameNode m n"
  shows "sort (map fst (children m)) = sort (map fst (children n))"
proof -
  have "set (map fst (children m)) = set (map fst (children n))"
    using assms by (metis sameNode_def dom_map_of_conv_image_fst set_map)
  moreover have "distinct (map fst (children m))" "distinct (map fst (children n))"
    using assms by (simp_all add: sameNode_def)
  ultimately show ?thesis
    by (intro sorted_distinct_set_unique) simp_all
qed

lemma sameNode_serialize:
  assumes "sameNode m n"
  shows "serialize E m = serialize E n"
proof -
  have k: "sort (map fst (children m)) = sort (map fst (children n))"
    by (rule sameNode_keys[OF assms])
  have v: "node_value m = node_value n" using assms by (simp add: sameNode_def)
  have w: "\<And>ks b off. writeChildren E (children m) ks b off = writeChildren E (children n) ks b off"
    using assms by (intro writeChildren_cong) (simp add: sameNode_def)
  show ?thesis unfolding serialize_def k v w ..
qed


lemma replicate_32:
  "replicate 32 x = [x,x,x,x,x,x,x,x,x,x,x,x,x,x,x,x,x,x,x,x,x,x,x,x,x,x,x,x,x,x,x,x]"
  by (simp add: numeral_eq_Suc)

lemma sampleHash_decodes: "fromBase64 testEnv sampleHash = replicate 32 0x12"
  unfolding replicate_32
  by (simp add: fromBase64_def sampleHash_def ascii_def padBase64_def testEnv_def
      testBase64Decode_def unletter_def)

lemma sampleHash_encodes: "toBase64 testEnv (replicate 32 0x12) = sampleHash"
  unfolding replicate_32
  by (simp add: toBase64_def sampleHash_def ascii_def testEnv_def testBase64_def letter_def)

lemma sampleNode_wellFormed: "wellFormedNode testEnv sampleNode"
  by (simp add: wellFormedNode_def sampleNode_def sampleHash_decodes sampleHash_encodes)
     (simp add: testEnv_def ascii_def)

lemma cjkNode_wellFormed: "wellFormedNode testEnv cjkNode"
  by (simp add: wellFormedNode_def cjkNode_def sampleHash_decodes sampleHash_encodes)

lemma digest_insertion_order: "sameNode m n \<Longrightarrow> getHash E m = getHash E n"
  by (simp add: getHash_def sameNode_serialize)

lemma node_roundtrip_latin1:
  assumes "wellFormedNode E n" and "latin1Keys n"
  shows "\<exists>b n'. serialize E n = Inr b \<and> deserialize E b = Inr n' \<and> sameNode n' n"
proof -
  have d: "distinct (map fst (children n))" using assms(1) by (simp add: wellFormedNode_def)
  have count: "length (children n) < 65536" by (rule latin1_count[OF d assms(2)])
  let ?n' = "\<lparr>node_value = node_value n, children = rebuiltChildren E (children n),
              hasValueFlag = False\<rparr>"
  have "map_of (rebuiltChildren E (children n)) = map_of (children n)"
    using assms by (intro rebuilt_latin1) (auto simp: wellFormedNode_def latin1Keys_def)
  moreover have "distinct (map fst (rebuiltChildren E (children n)))"
    unfolding rebuiltChildren_def by (rule distinct_foldl_update) simp
  ultimately have "sameNode ?n' n" using d by (simp add: sameNode_def)
  thus ?thesis using node_through_storage[OF assms(1) count] by blast
qed

text \<open>
  C8 fails on a node that \<open>put\<close> builds for any key with a character above U+00FF: the
  node with one child under U+4E2D is written with the key byte \<open>0x2d\<close> and comes back
  with its child under the character \<open>-\<close>.
\<close>

theorem node_roundtrip_counterexample:
  "serialize testEnv cjkNode = Inr (0x02 # 0x2d # replicate 32 0x12)
   \<and> deserialize testEnv (0x02 # 0x2d # replicate 32 0x12)
       = Inr \<lparr>node_value = None, children = [(0x2d, sampleHash)], hasValueFlag = False\<rparr>
   \<and> children cjkNode = [(0x4e2d, sampleHash)]"
proof -
  have c: "length (children cjkNode) < 65536" by (simp add: cjkNode_def)
  have img: "nodeImage testEnv cjkNode = 0x02 # 0x2d # replicate 32 0x12"
    by (simp add: nodeImage_def cjkNode_def childrenImage_def sampleHash_decodes toUint8_def
        bor_def shl_def toInt32_def)
  have rb: "rebuiltChildren testEnv (children cjkNode) = [(0x2d, sampleHash)]"
    by (simp add: rebuiltChildren_def cjkNode_def lowKey_def sampleHash_decodes
        sampleHash_encodes)
  show ?thesis
    using node_through_storage[OF cjkNode_wellFormed c] unfolding img rb
    by (simp add: cjkNode_def)
qed

lemma skewNode_wellFormed: "wellFormedNode testEnv skewNode"
  by (simp add: wellFormedNode_def skewNode_def sampleHash_decodes sampleHash_encodes)

lemma skewNode_image:
  "nodeImage testEnv skewNode = 0x04 # 0x42 # replicate 32 0x12 @ 0x41 # replicate 32 0x12"
  by (simp add: nodeImage_def skewNode_def childrenImage_def sampleHash_decodes toUint8_def
      bor_def shl_def toInt32_def)

lemma skewNode_reread:
  "rebuiltChildren testEnv (children skewNode) = [(0x42, sampleHash), (0x41, sampleHash)]"
  by (simp add: rebuiltChildren_def skewNode_def lowKey_def sampleHash_decodes
      sampleHash_encodes)

lemma skewNode_reread_image:
  "serialize testEnv \<lparr>node_value = None, children = [(0x42, sampleHash), (0x41, sampleHash)],
                       hasValueFlag = False\<rparr>
   = Inr (0x04 # 0x41 # replicate 32 0x12 @ 0x42 # replicate 32 0x12)"
proof -
  let ?n = "\<lparr>node_value = None, children = [(0x42, sampleHash), (0x41, sampleHash)],
             hasValueFlag = False\<rparr>"
  have "\<forall>c\<in>set (map fst (children ?n)).
          length (fromBase64 testEnv (the (map_of (children ?n) c))) = 32"
    by (simp add: sampleHash_decodes)
  from serialize_image[OF this] show ?thesis
    by (simp add: nodeImage_def childrenImage_def sampleHash_decodes toUint8_def
        bor_def shl_def toInt32_def)
qed

lemma letter_unat: "k < 16 \<Longrightarrow> unat (letter k) = 97 + k"
proof -
  assume k: "k < 16"
  have "unat (of_nat (97 + k) :: 16 word) = (97 + k) mod 2 ^ LENGTH(16)" by (rule unat_of_nat)
  thus ?thesis using k by (simp add: letter_def)
qed

lemma unletter_letter: "k < 16 \<Longrightarrow> unletter (letter k) = k"
  by (simp add: unletter_def letter_unat)

lemma letter_above: "k < 16 \<Longrightarrow> unat w < 97 \<Longrightarrow> letter k \<noteq> w"
  using letter_unat[of k] by auto

lemma letter_plain:
  assumes "k < 16"
  shows "letter k \<noteq> 0x3d \<and> letter k \<noteq> 0x2b \<and> letter k \<noteq> 0x2f \<and> letter k \<noteq> 0x2d \<and> letter k \<noteq> 0x5f"
  by (intro conjI letter_above[OF assms]) simp_all

lemma byte_nibbles: "unat (x :: byte) div 16 < 16" "unat x mod 16 < 16"
proof -
  have "unat x < 2 ^ LENGTH(8)" by (rule unsigned_less)
  thus "unat x div 16 < 16" by simp
  show "unat x mod 16 < 16" by simp
qed

lemma testBase64_plain:
  "c \<in> set (testBase64 d) \<Longrightarrow> c \<noteq> 0x3d \<and> c \<noteq> 0x2b \<and> c \<noteq> 0x2f \<and> c \<noteq> 0x2d \<and> c \<noteq> 0x5f"
proof -
  assume "c \<in> set (testBase64 d)"
  then obtain x :: byte where "c = letter (unat x div 16) \<or> c = letter (unat x mod 16)"
    by (auto simp: testBase64_def)
  thus ?thesis
    using letter_plain[OF byte_nibbles(1)[of x]] letter_plain[of "unat x mod 16"] by auto
qed

lemma testBase64Pairs_back: "testBase64Pairs (testBase64 d) = d"
proof (induction d)
  case Nil
  show ?case by (simp add: testBase64_def)
next
  case (Cons x d)
  have "(of_nat (16 * (unat x div 16) + unat x mod 16) :: byte) = x" by simp
  hence "(of_nat (16 * unletter (letter (unat x div 16)) + unletter (letter (unat x mod 16))) :: byte) = x"
    by (simp only: unletter_letter[OF byte_nibbles(1)] unletter_letter[OF byte_nibbles(2)])
  thus ?case using Cons.IH
    by (simp add: testBase64_def del: of_nat_add of_nat_mult)
qed

lemma sha256_testEnv: "sha256 testEnv = testDigest"
  by (simp add: testEnv_def)

lemma toBase64_testEnv: "toBase64 testEnv d = testBase64 d"
proof -
  have "base64 testEnv d = testBase64 d" by (simp add: testEnv_def)
  thus ?thesis
    unfolding toBase64_def using testBase64_plain[of _ d]
    by (simp add: map_idI filter_id_conv)
qed

lemma fromBase64_testEnv: "fromBase64 testEnv (testBase64 d) = d"
proof -
  have m: "map (\<lambda>c. if c = 0x5f then 0x2f else c)
             (map (\<lambda>c. if c = 0x2d then 0x2b else c) (testBase64 d)) = testBase64 d"
    using testBase64_plain[of _ d] by (simp add: map_idI)
  have f: "filter (\<lambda>c. c \<noteq> 0x3d) (testBase64 d) = testBase64 d"
    using testBase64_plain[of _ d] by (simp add: filter_id_conv)
  have "base64_decode testEnv = testBase64Decode" by (simp add: testEnv_def)
  thus ?thesis
    unfolding fromBase64_def m
    by (simp add: padBase64_def testBase64Decode_def f testBase64Pairs_back)
qed

lemma testEnv_base64_roundtrip: "fromBase64 testEnv (toBase64 testEnv d) = d"
  by (simp add: toBase64_testEnv fromBase64_testEnv)

lemma testEnv_base64_inj: "toBase64 testEnv a = toBase64 testEnv b \<Longrightarrow> a = b"
  by (metis testEnv_base64_roundtrip)

text \<open>
  C10: \<open>serialize\<close> never refuses a well-formed node; what comes back has, for every child
  key, the character of its low byte. So the children come back unchanged exactly when
  every child key is below 256, and then the node that comes back has the digest of the
  node that went in. Above 256 the digest is not kept in general: on the test platform the
  node with children under U+0141 and \<open>B\<close> comes back with another digest.
\<close>

theorem serialize_keeps_low_byte_of_key:
  "(wellFormedNode E n \<and> length (children n) < 65536 \<longrightarrow>
      (\<exists>b n'. serialize E n = Inr b \<and> deserialize E b = Inr n'
           \<and> fst ` set (children n') = lowKey ` fst ` set (children n)
           \<and> (map_of (children n') = map_of (children n) \<longleftrightarrow> latin1Keys n)
           \<and> (latin1Keys n \<longrightarrow> getHash E n' = getHash E n)))
   \<and> (\<exists>b n'. serialize testEnv skewNode = Inr b \<and> deserialize testEnv b = Inr n'
           \<and> getHash testEnv n' \<noteq> getHash testEnv skewNode)"
proof (intro conjI impI)
  assume a: "wellFormedNode E n \<and> length (children n) < 65536"
  hence wf: "wellFormedNode E n" and cnt: "length (children n) < 65536" by simp_all
  let ?n' = "\<lparr>node_value = node_value n, children = rebuiltChildren E (children n),
              hasValueFlag = False\<rparr>"
  have keys: "fst ` set (children ?n') = lowKey ` fst ` set (children n)"
    by (simp add: rebuilt_keys)
  have d: "distinct (map fst (children n))" using wf by (simp add: wellFormedNode_def)
  have d': "distinct (map fst (rebuiltChildren E (children n)))"
    unfolding rebuiltChildren_def by (rule distinct_foldl_update) simp
  have iff: "map_of (children ?n') = map_of (children n) \<longleftrightarrow> latin1Keys n"
  proof
    assume eq: "map_of (children ?n') = map_of (children n)"
    have "fst ` set (children ?n') = fst ` set (children n)"
      using eq by (metis dom_map_of_conv_image_fst)
    hence "fst ` set (children n) = lowKey ` fst ` set (children n)" using keys by simp
    hence "\<forall>c \<in> fst ` set (children n). \<exists>c'. c = lowKey c'" by blast
    thus "latin1Keys n" using lowKey_lt by (auto simp: latin1Keys_def)
  next
    assume "latin1Keys n"
    thus "map_of (children ?n') = map_of (children n)"
      using wf rebuilt_latin1[of "children n" E]
      by (auto simp: wellFormedNode_def latin1Keys_def)
  qed
  have "latin1Keys n \<longrightarrow> getHash E ?n' = getHash E n"
  proof
    assume "latin1Keys n"
    hence "sameNode ?n' n" using iff d d' by (simp add: sameNode_def)
    thus "getHash E ?n' = getHash E n" by (rule digest_insertion_order)
  qed
  thus "\<exists>b n'. serialize E n = Inr b \<and> deserialize E b = Inr n'
           \<and> fst ` set (children n') = lowKey ` fst ` set (children n)
           \<and> (map_of (children n') = map_of (children n) \<longleftrightarrow> latin1Keys n)
           \<and> (latin1Keys n \<longrightarrow> getHash E n' = getHash E n)"
    using node_through_storage[OF wf cnt] keys iff by blast
next
  have c: "length (children skewNode) < 65536" by (simp add: skewNode_def)
  let ?n' = "\<lparr>node_value = None, children = [(0x42, sampleHash), (0x41, sampleHash)],
              hasValueFlag = False\<rparr>"
  have s: "serialize testEnv skewNode = Inr (nodeImage testEnv skewNode)"
    and r: "deserialize testEnv (nodeImage testEnv skewNode) = Inr ?n'"
    using node_through_storage[OF skewNode_wellFormed c] skewNode_reread
    by (simp_all add: skewNode_def)
  have "testDigest (0x04 # 0x41 # replicate 32 0x12 @ 0x42 # replicate 32 0x12)
        \<noteq> testDigest (0x04 # 0x42 # replicate 32 0x12 @ 0x41 # replicate 32 0x12)"
    by (simp add: testDigest_def testHeight_def)
  hence "toBase64 testEnv (sha256 testEnv (0x04 # 0x41 # replicate 32 0x12 @ 0x42 # replicate 32 0x12))
        \<noteq> toBase64 testEnv (sha256 testEnv (0x04 # 0x42 # replicate 32 0x12 @ 0x41 # replicate 32 0x12))"
    by (auto simp: sha256_testEnv dest: testEnv_base64_inj)
  hence "getHash testEnv ?n' \<noteq> getHash testEnv skewNode"
    by (simp add: getHash_def s skewNode_image skewNode_reread_image)
  thus "\<exists>b n'. serialize testEnv skewNode = Inr b \<and> deserialize testEnv b = Inr n'
           \<and> getHash testEnv n' \<noteq> getHash testEnv skewNode"
    using s r by blast
qed

theorem serialize_keeps_low_byte_of_key_witness:
  "(wellFormedNode testEnv cjkNode \<and> length (children cjkNode) < 65536)
   \<and> \<not> latin1Keys cjkNode
   \<and> (wellFormedNode testEnv sampleNode \<and> length (children sampleNode) < 65536)
   \<and> latin1Keys sampleNode
   \<and> (\<exists>b n'. serialize testEnv cjkNode = Inr b \<and> deserialize testEnv b = Inr n'
           \<and> fst ` set (children n') = lowKey ` fst ` set (children cjkNode)
           \<and> map_of (children n') \<noteq> map_of (children cjkNode))
   \<and> (\<exists>b n'. serialize testEnv sampleNode = Inr b \<and> deserialize testEnv b = Inr n'
           \<and> map_of (children n') = map_of (children sampleNode)
           \<and> getHash testEnv n' = getHash testEnv sampleNode)"
proof -
  have c: "wellFormedNode testEnv cjkNode \<and> length (children cjkNode) < 65536"
    using cjkNode_wellFormed by (simp add: cjkNode_def)
  have nl: "\<not> latin1Keys cjkNode" by (simp add: latin1Keys_def cjkNode_def)
  have s: "wellFormedNode testEnv sampleNode \<and> length (children sampleNode) < 65536"
    using sampleNode_wellFormed by (simp add: sampleNode_def)
  have l: "latin1Keys sampleNode" by (simp add: latin1Keys_def sampleNode_def)
  from serialize_keeps_low_byte_of_key[of testEnv cjkNode, THEN conjunct1, rule_format, OF c]
  obtain b n' where
    "serialize testEnv cjkNode = Inr b" "deserialize testEnv b = Inr n'"
    "fst ` set (children n') = lowKey ` fst ` set (children cjkNode)"
    "map_of (children n') = map_of (children cjkNode) \<longleftrightarrow> latin1Keys cjkNode"
    by blast
  hence 1: "\<exists>b n'. serialize testEnv cjkNode = Inr b \<and> deserialize testEnv b = Inr n'
           \<and> fst ` set (children n') = lowKey ` fst ` set (children cjkNode)
           \<and> map_of (children n') \<noteq> map_of (children cjkNode)"
    using nl by blast
  from serialize_keeps_low_byte_of_key[of testEnv sampleNode, THEN conjunct1, rule_format, OF s]
  obtain b n' where
    "serialize testEnv sampleNode = Inr b" "deserialize testEnv b = Inr n'"
    "map_of (children n') = map_of (children sampleNode) \<longleftrightarrow> latin1Keys sampleNode"
    "latin1Keys sampleNode \<longrightarrow> getHash testEnv n' = getHash testEnv sampleNode"
    by blast
  hence 2: "\<exists>b n'. serialize testEnv sampleNode = Inr b \<and> deserialize testEnv b = Inr n'
           \<and> map_of (children n') = map_of (children sampleNode)
           \<and> getHash testEnv n' = getHash testEnv sampleNode"
    using l by blast
  from c nl s l 1 2 show ?thesis by (intro conjI) simp_all
qed

section \<open>The coordinator\<close>

lemma getWalk_astral:
  "\<exists>p\<in>set cps. length p \<noteq> 1 \<Longrightarrow> fst (getWalk E t n cps) \<noteq> Inr (Some x)"
proof (induction cps arbitrary: t n)
  case Nil
  then show ?case by simp
next
  case (Cons char rest)
  show ?case
  proof (cases "childLookup n char")
    case None
    then show ?thesis by simp
  next
    case (Some h)
    hence "length char = 1" by (auto simp: childLookup_def split: list.splits option.splits if_splits)
    hence r: "\<exists>p\<in>set rest. length p \<noteq> 1" using Cons.prems by auto
    show ?thesis using Some Cons.IH[OF r]
      by (auto split: prod.splits option.splits sum.splits)
  qed
qed

lemma trieGet_astral:
  assumes "\<exists>p\<in>set (codePoints (normalizeKey E k)). length p \<noteq> 1"
  shows "fst (trieGet E t k) = Inr VNull \<or> isl (fst (trieGet E t k))"
proof -
  obtain r t1 where g: "getRoot E t = (r, t1)" by (cases "getRoot E t")
  show ?thesis
  proof (cases r)
    case (Inl e)
    then show ?thesis using g by (simp add: trieGet_def)
  next
    case (Inr root)
    obtain w t2 where w: "getWalk E t1 root (codePoints (normalizeKey E k)) = (w, t2)"
      by (cases "getWalk E t1 root (codePoints (normalizeKey E k))")
    have "\<And>x. w \<noteq> Inr (Some x)" using getWalk_astral[OF assms, of E t1 root] w by simp
    then show ?thesis using g Inr w
      by (cases w) (auto simp: trieGet_def split: option.splits)
  qed
qed

text \<open>
  C9 fails on keys outside the Basic Multilingual Plane: \<open>get\<close> walks the path by code
  point and looks each one up among children that \<open>put\<close> filed under single code units.
  Whatever the instance, the value and the moment of the \<open>put\<close>, the \<open>get\<close> that follows
  returns \<open>null\<close> or throws; it never returns a value that is not \<open>null\<close>.
\<close>

theorem put_then_get_astral_key:
  assumes "\<exists>p\<in>set (codePoints (normalizeKey E (ascii ''all/'' @ key))). length p \<noteq> 1"
  shows "fst (get E (snd (put E rg key v options now iv)) key None) = Inr VNull
         \<or> isl (fst (get E (snd (put E rg key v options now iv)) key None))"
proof -
  define rg' where "rg' = snd (put E rg key v options now iv)"
  from trieGet_astral[OF assms, of "rg_trie rg'"]
  have "fst (get E rg' key None) = Inr VNull \<or> isl (fst (get E rg' key None))"
    by (auto simp: get_def spaceOf_def Let_def split: prod.splits sum.splits)
  thus ?thesis unfolding rg'_def .
qed

theorem put_then_get_astral_key_witness:
  "(\<exists>p\<in>set (codePoints (normalizeKey testEnv (ascii ''all/'' @ emojiKey))). length p \<noteq> 1)
   \<and> VStr (ascii ''hi'') \<noteq> VNull
   \<and> (fst (get testEnv (snd (put testEnv freshInstance emojiKey (VStr (ascii ''hi'')) defaultOptions 1 []))
              emojiKey None) = Inr VNull
      \<or> isl (fst (get testEnv (snd (put testEnv freshInstance emojiKey (VStr (ascii ''hi'')) defaultOptions 1 []))
              emojiKey None)))"
proof -
  have h: "\<exists>p\<in>set (codePoints (normalizeKey testEnv (ascii ''all/'' @ emojiKey))). length p \<noteq> 1"
    by (simp add: normalizeKey_def testEnv_def testLower_def ascii_def emojiKey_def
        isHighSurrogate_def isLowSurrogate_def)
  show ?thesis using put_then_get_astral_key[OF h] h by simp
qed




end
